theory Spec2Isabelle
  imports Complex_Main "HOL-Library.AList" "HOL-Library.Product_Lexorder"
begin

section \<open>Hydrogen bond detection (biotite/structure/hbond.py)\<close>

subsection \<open>Geometry and the hydrogen bond criterion\<close>

text \<open>
  Coordinates are triples of reals (the floating point numbers of the source are read as
  reals). The functions \<open>angle\<close> and \<open>distance\<close> come from the module
  \<open>biotite.structure.geometry\<close>, which is imported by hbond.py; every function below
  that calls them takes the point-wise functions as its first arguments.
\<close>

type_synonym point = "real \<times> real \<times> real"

text \<open>numpy's \<open>deg2rad\<close>.\<close>

definition deg2rad :: "real \<Rightarrow> real" where
  "deg2rad x = x * pi / 180"

text \<open>
  Modelled from the spec: the array forms of the geometry primitives of
  \<open>biotite.structure.geometry\<close> ("distance and angle over arrays of 3D points,
  broadcasting over a leading model axis"): on arrays of N points they work element by
  element, on M x N arrays model by model.
\<close>

definition angle_arr ::
  "(point \<Rightarrow> point \<Rightarrow> point \<Rightarrow> real) \<Rightarrow> point list \<Rightarrow> point list \<Rightarrow> point list \<Rightarrow> real list" where
  "angle_arr angle ps qs rs = map (\<lambda>(p, q, r). angle p q r) (zip ps (zip qs rs))"

definition distance_arr ::
  "(point \<Rightarrow> point \<Rightarrow> real) \<Rightarrow> point list \<Rightarrow> point list \<Rightarrow> real list" where
  "distance_arr distance ps qs = map (\<lambda>(p, q). distance p q) (zip ps qs)"

definition angle_stack ::
  "(point \<Rightarrow> point \<Rightarrow> point \<Rightarrow> real) \<Rightarrow> point list list \<Rightarrow> point list list \<Rightarrow> point list list
     \<Rightarrow> real list list" where
  "angle_stack angle pss qss rss =
     map (\<lambda>(ps, qs, rs). angle_arr angle ps qs rs) (zip pss (zip qss rss))"

definition distance_stack ::
  "(point \<Rightarrow> point \<Rightarrow> real) \<Rightarrow> point list list \<Rightarrow> point list list \<Rightarrow> real list list" where
  "distance_stack distance pss qss =
     map (\<lambda>(ps, qs). distance_arr distance ps qs) (zip pss qss)"

text \<open>
  \<open>_is_hbond\<close> on arrays of N coordinates:
  \<^verbatim>\<open>
    cutoff_angle_rad = np.deg2rad(cutoff_angle)
    theta = angle(donor, donor_h, acceptor)
    dist = distance(donor_h, acceptor)
    return (theta > cutoff_angle_rad) & (dist <= cutoff_dist)
  \<close>
\<close>

definition is_hbond ::
  "(point \<Rightarrow> point \<Rightarrow> point \<Rightarrow> real) \<Rightarrow> (point \<Rightarrow> point \<Rightarrow> real)
     \<Rightarrow> point list \<Rightarrow> point list \<Rightarrow> point list \<Rightarrow> real \<Rightarrow> real \<Rightarrow> bool list" where
  "is_hbond angle distance donor donor_h acceptor cutoff_dist cutoff_angle =
     (let cutoff_angle_rad = deg2rad cutoff_angle;
          theta = angle_arr angle donor donor_h acceptor;
          dist = distance_arr distance donor_h acceptor
      in map (\<lambda>(t, d). t > cutoff_angle_rad \<and> d \<le> cutoff_dist) (zip theta dist))"

text \<open>The same function on M x N arrays (one row of coordinates for each model).\<close>

definition is_hbond_stack ::
  "(point \<Rightarrow> point \<Rightarrow> point \<Rightarrow> real) \<Rightarrow> (point \<Rightarrow> point \<Rightarrow> real)
     \<Rightarrow> point list list \<Rightarrow> point list list \<Rightarrow> point list list \<Rightarrow> real \<Rightarrow> real
     \<Rightarrow> bool list list" where
  "is_hbond_stack angle distance donor donor_h acceptor cutoff_dist cutoff_angle =
     (let cutoff_angle_rad = deg2rad cutoff_angle;
          theta = angle_stack angle donor donor_h acceptor;
          dist = distance_stack distance donor_h acceptor
      in map (\<lambda>(ts, ds). map (\<lambda>(t, d). t > cutoff_angle_rad \<and> d \<le> cutoff_dist) (zip ts ds))
           (zip theta dist))"

subsection \<open>Frequency of a hydrogen bond over the models\<close>

text \<open>
  A presence mask is a list of rows, one row of booleans for each model.
  \<open>mask.sum(axis=0)\<close> starts from the first row, read as integers, and adds the other
  rows to it element by element.
\<close>

definition add_row :: "int list \<Rightarrow> bool list \<Rightarrow> int list" where
  "add_row acc row = map (\<lambda>(s, b). s + of_bool b) (zip acc row)"

definition sum_axis0 :: "bool list list \<Rightarrow> int list" where
  "sum_axis0 pmask =
     (case pmask of [] \<Rightarrow> [] | r # rs \<Rightarrow> foldl add_row (map of_bool r) rs)"

text \<open>
  \<open>hbond_frequency\<close>: \<open>return mask.sum(axis=0)/len(mask)\<close>. With no model at all numpy
  divides by zero and yields NaN entries, which are no real numbers: the result is
  \<open>None\<close> then.
\<close>

definition hbond_frequency :: "bool list list \<Rightarrow> real list option" where
  "hbond_frequency pmask =
     (if length pmask = 0 then None
      else Some (map (\<lambda>s. real_of_int s / real (length pmask)) (sum_axis0 pmask)))"

subsection \<open>Exceptions, arrays and atoms\<close>

text \<open>The exceptions of Python that the modelled code can raise.\<close>

datatype py_error =
  ValueError | IndexError | ZeroDivisionError | KeyError | NameError | TypeError
  | UnboundLocalError

text \<open>
  An \<open>AtomArrayStack\<close> holds the annotations shared by all models (one element symbol
  and one residue id for each of the N atoms) and the coordinates, one row of N points
  for each of the M models. An \<open>AtomArray\<close> is a single model. The classes keep every
  annotation array and every row of coordinates at length N, so that the indices taken
  from a selection of length N are in range.
\<close>

record atom_array_stack =
  element :: "string list"
  res_id :: "int list"
  coord :: "point list list"

datatype atoms_arg =
  AtomArray "string list" "int list" "point list"
  | AtomArrayStack atom_array_stack

definition array_length :: "atom_array_stack \<Rightarrow> nat" where
  "array_length atoms = length (element atoms)"

text \<open>\<open>stack([atoms])\<close> for a single model.\<close>

definition stack1 :: "string list \<Rightarrow> int list \<Rightarrow> point list \<Rightarrow> atom_array_stack" where
  "stack1 el rid crd = \<lparr>element = el, res_id = rid, coord = [crd]\<rparr>"

text \<open>
  numpy on one-dimensional boolean arrays. \<open>&\<close> needs two arrays of one shape; numpy
  would also broadcast an array of length one, which the docstring of \<open>hbond\<close> excludes
  ("The shape must match the shape of the atoms argument") and which is an error here.
\<close>

definition np_and :: "bool list \<Rightarrow> bool list \<Rightarrow> py_error + bool list" where
  "np_and xs ys =
     (if length xs = length ys then Inr (map (\<lambda>(x, y). x \<and> y) (zip xs ys))
      else Inl ValueError)"

definition np_isin :: "string list \<Rightarrow> string list \<Rightarrow> bool list" where
  "np_isin xs elements = map (\<lambda>x. x \<in> set elements) xs"

definition np_where :: "bool list \<Rightarrow> nat list" where
  "np_where xs = filter (\<lambda>i. xs ! i) [0..<length xs]"

text \<open>Indexing with a boolean array: \<open>xs[bs]\<close>.\<close>

definition bool_index :: "'a list \<Rightarrow> bool list \<Rightarrow> 'a list" where
  "bool_index xs bs = map fst (filter snd (zip xs bs))"

text \<open>Indexing the atom axis with an index array: \<open>atoms[:, idx]\<close> and \<open>mask[:, idx]\<close>.\<close>

definition take_cols :: "'a list list \<Rightarrow> nat list \<Rightarrow> 'a list list" where
  "take_cols rows idx = map (\<lambda>row. map (\<lambda>i. row ! i) idx) rows"

text \<open>\<open>mask.any(axis=0)\<close> of a mask with T columns.\<close>

definition any_axis0 :: "bool list list \<Rightarrow> nat \<Rightarrow> bool list" where
  "any_axis0 pmask T = map (\<lambda>t. list_ex (\<lambda>row. row ! t) pmask) [0..<T]"

text \<open>
  \<open>np.empty((m, n), dtype=np.bool)\<close> allocates an m x n array and does not initialise
  it. The content of the memory it gets is the parameter \<open>uninit\<close>.
\<close>

definition np_empty :: "(nat \<Rightarrow> nat \<Rightarrow> bool) \<Rightarrow> nat \<Rightarrow> nat \<Rightarrow> bool list list" where
  "np_empty uninit m n = map (\<lambda>i. map (\<lambda>j. uninit i j) [0..<n]) [0..<m]"

text \<open>
  \<open>np.unique(triplets, axis=0, return_index=True)\<close>: the distinct rows in ascending
  (lexicographic) order, and for each of them the index of its first occurrence.
\<close>

type_synonym triplet = "nat \<times> nat \<times> nat"

fun first_index :: "'a list \<Rightarrow> 'a \<Rightarrow> nat" where
  "first_index [] x = 0"
| "first_index (y # ys) x = (if x = y then 0 else Suc (first_index ys x))"

definition np_unique :: "triplet list \<Rightarrow> triplet list \<times> nat list" where
  "np_unique ts = (let u = sort (remdups ts) in (u, map (first_index ts) u))"

subsection \<open>The search for hydrogen bonds\<close>

text \<open>
  Assigning floating point numbers into the integer array \<open>np.full(n, -1)\<close> truncates
  them towards zero.
\<close>

definition trunc_int :: "real \<Rightarrow> int" where
  "trunc_int x = (if 0 \<le> x then \<lfloor>x\<rfloor> else \<lceil>x\<rceil>)"

text \<open>
  \<open>_get_bonded_hydrogen(atoms, donor_mask, cutoff=1.5)\<close>, on the first model: for each
  donor the indices of the hydrogens of the same residue whose distance, as stored in
  the integer array \<open>distances\<close>, is at most the cutoff and not negative.
\<close>

definition get_bonded_hydrogen ::
  "(point \<Rightarrow> point \<Rightarrow> real) \<Rightarrow> string list \<Rightarrow> int list \<Rightarrow> point list \<Rightarrow> bool list \<Rightarrow> real
     \<Rightarrow> nat list list" where
  "get_bonded_hydrogen distance el rid crd donor_mask cutoff =
     (let hydrogens_mask = map (\<lambda>e. e = ''H'') el
      in map (\<lambda>donor.
            let candidate_mask = map (\<lambda>(h, r). h \<and> r = rid ! donor) (zip hydrogens_mask rid);
                sel = map (\<lambda>(c, h). c \<and> h) (zip candidate_mask hydrogens_mask);
                distances = map (\<lambda>(s, p). if s then trunc_int (distance (crd ! donor) p) else - 1)
                              (zip sel crd);
                donor_h_mask = map (\<lambda>(c, d). c \<and> real_of_int d \<le> cutoff \<and> d \<ge> 0)
                                 (zip candidate_mask distances)
            in np_where donor_h_mask)
          (np_where donor_mask))"

text \<open>
  \<open>_get_triplets(donor_i, donor_hs_i, acceptor_i)\<close>: every donor is paired with each of
  its hydrogens; without any such pair the result is empty. Otherwise each pair is
  repeated once for each acceptor, the acceptors are tiled
  \<open>int(doublets.shape[0] / acceptor_i.shape[0])\<close> times, which divides by zero when there
  is no acceptor, and the rows whose donor is the acceptor are dropped.
\<close>

definition get_triplets ::
  "nat list \<Rightarrow> nat list list \<Rightarrow> nat list \<Rightarrow> py_error + triplet list" where
  "get_triplets donor_i donor_hs_i acceptor_i =
     (let doublets = concat (map (\<lambda>(d, hs). map (\<lambda>h. (d, h)) hs) (zip donor_i donor_hs_i))
      in if length doublets = 0 then Inr []
         else
           let doublets_rep = concat (map (replicate (length acceptor_i)) doublets)
           in if length acceptor_i = 0 then Inl ZeroDivisionError
              else
                let acceptor_rep =
                      concat (replicate (length doublets_rep div length acceptor_i) acceptor_i);
                    triplets = map (\<lambda>((d, h), a). (d, h, a)) (zip doublets_rep acceptor_rep)
                in Inr (filter (\<lambda>(d, h, a). d \<noteq> a) triplets))"

text \<open>
  The geometric test of \<open>_hbond\<close> over all models, in its two forms: one call of
  \<open>_is_hbond\<close> on the M x T arrays of coordinates, or a loop over the models that
  writes one row of the mask at a time into an array of \<open>False\<close>.
\<close>

definition hbond_mask_vectorized ::
  "(point \<Rightarrow> point \<Rightarrow> point \<Rightarrow> real) \<Rightarrow> (point \<Rightarrow> point \<Rightarrow> real) \<Rightarrow> point list list
     \<Rightarrow> triplet list \<Rightarrow> real \<Rightarrow> real \<Rightarrow> bool list list" where
  "hbond_mask_vectorized angle distance crds triplets cutoff_dist cutoff_angle =
     (let donor_atoms = take_cols crds (map fst triplets);
          donor_h_atoms = take_cols crds (map (\<lambda>t. fst (snd t)) triplets);
          acceptor_atoms = take_cols crds (map (\<lambda>t. snd (snd t)) triplets)
      in is_hbond_stack angle distance donor_atoms donor_h_atoms acceptor_atoms
           cutoff_dist cutoff_angle)"

definition hbond_mask_loop ::
  "(point \<Rightarrow> point \<Rightarrow> point \<Rightarrow> real) \<Rightarrow> (point \<Rightarrow> point \<Rightarrow> real) \<Rightarrow> point list list
     \<Rightarrow> triplet list \<Rightarrow> real \<Rightarrow> real \<Rightarrow> bool list list" where
  "hbond_mask_loop angle distance crds triplets cutoff_dist cutoff_angle =
     foldl (\<lambda>hbond_mask frame.
              let donor_atoms = map (\<lambda>i. crds ! frame ! i) (map fst triplets);
                  donor_h_atoms = map (\<lambda>i. crds ! frame ! i) (map (\<lambda>t. fst (snd t)) triplets);
                  acceptor_atoms = map (\<lambda>i. crds ! frame ! i) (map (\<lambda>t. snd (snd t)) triplets);
                  frame_mask = is_hbond angle distance donor_atoms donor_h_atoms acceptor_atoms
                                 cutoff_dist cutoff_angle
              in hbond_mask[frame := frame_mask])
       (replicate (length crds) (replicate (length triplets) False))
       [0..<length crds]"

text \<open>
  \<open>_hbond\<close>: one directional search, from a donor selection to an acceptor selection.
\<close>

definition hbond_priv ::
  "(point \<Rightarrow> point \<Rightarrow> point \<Rightarrow> real) \<Rightarrow> (point \<Rightarrow> point \<Rightarrow> real) \<Rightarrow> (nat \<Rightarrow> nat \<Rightarrow> bool)
     \<Rightarrow> atom_array_stack \<Rightarrow> bool list \<Rightarrow> bool list \<Rightarrow> real \<Rightarrow> real \<Rightarrow> string list \<Rightarrow> string list
     \<Rightarrow> bool \<Rightarrow> py_error + triplet list \<times> bool list list" where
  "hbond_priv angle distance uninit atoms donor_selection acceptor_selection
       cutoff_dist cutoff_angle donor_elements acceptor_elements vectorized =
     (case np_and donor_selection (np_isin (element atoms) donor_elements) of
        Inl e \<Rightarrow> Inl e
      | Inr donor_sel \<Rightarrow>
     (case np_and acceptor_selection (np_isin (element atoms) acceptor_elements) of
        Inl e \<Rightarrow> Inl e
      | Inr acceptor_sel \<Rightarrow>
     (let donor_i = np_where donor_sel;
          acceptor_i = np_where acceptor_sel
      in case coord atoms of
           [] \<Rightarrow> Inl IndexError
         | crd0 # _ \<Rightarrow>
     (let donor_hs_i =
            get_bonded_hydrogen distance (element atoms) (res_id atoms) crd0 donor_sel (3 / 2)
      in case get_triplets donor_i donor_hs_i acceptor_i of
           Inl e \<Rightarrow> Inl e
         | Inr triplets \<Rightarrow>
             if length triplets = 0
             then Inr (triplets, np_empty uninit (length (coord atoms)) 3)
             else
               let hbond_mask =
                     (if vectorized
                      then hbond_mask_vectorized angle distance (coord atoms) triplets
                             cutoff_dist cutoff_angle
                      else hbond_mask_loop angle distance (coord atoms) triplets
                             cutoff_dist cutoff_angle);
                   is_counted = any_axis0 hbond_mask (length triplets)
               in Inr (bool_index triplets is_counted,
                       map (\<lambda>row. bool_index row is_counted) hbond_mask)))))"

text \<open>
  \<open>hbond\<close>. The type of the second selection is the opposite of the type of the first
  one; an unknown type raises \<open>ValueError\<close>.
\<close>

definition selection2_type_of :: "string \<Rightarrow> py_error + string" where
  "selection2_type_of selection1_type =
     (if selection1_type = ''both'' then Inr selection1_type
      else if selection1_type = ''acceptor'' then Inr ''donor''
      else if selection1_type = ''donor'' then Inr ''acceptor''
      else Inl ValueError)"

definition build_donor_acceptor_selections ::
  "atom_array_stack \<Rightarrow> bool list option \<Rightarrow> string \<Rightarrow> bool list \<times> bool list" where
  "build_donor_acceptor_selections atoms selection selection_type =
     (let sel = (case selection of None \<Rightarrow> replicate (array_length atoms) True | Some s \<Rightarrow> s);
          donor_selection =
            (if selection_type \<in> set [''both'', ''donor''] then sel
             else replicate (array_length atoms) False);
          acceptor_selection =
            (if selection_type \<in> set [''both'', ''acceptor''] then sel
             else replicate (array_length atoms) False)
      in (donor_selection, acceptor_selection))"

datatype hbond_result =
  Triplets "triplet list"
  | TripletsMask "triplet list" "bool list list"

fun triplets_of :: "hbond_result \<Rightarrow> triplet list" where
  "triplets_of (Triplets ts) = ts"
| "triplets_of (TripletsMask ts m) = ts"

text \<open>
  The start of \<open>hbond\<close>: a single model becomes a stack of one model, and
  \<open>single_model\<close> remembers it.
\<close>

fun as_stack :: "atoms_arg \<Rightarrow> atom_array_stack \<times> bool" where
  "as_stack (AtomArray el rid crd) = (stack1 el rid crd, True)"
| "as_stack (AtomArrayStack s) = (s, False)"

text \<open>
  The two calls of \<open>_hbond\<close> allocate their arrays apart: the first one finds the memory
  content \<open>uninit 0\<close>, the second one \<open>uninit 1\<close>.
\<close>

definition hbond ::
  "(point \<Rightarrow> point \<Rightarrow> point \<Rightarrow> real) \<Rightarrow> (point \<Rightarrow> point \<Rightarrow> real) \<Rightarrow> (nat \<Rightarrow> nat \<Rightarrow> nat \<Rightarrow> bool)
     \<Rightarrow> atoms_arg \<Rightarrow> bool list option \<Rightarrow> bool list option \<Rightarrow> string \<Rightarrow> real \<Rightarrow> real
     \<Rightarrow> string list \<Rightarrow> string list \<Rightarrow> bool \<Rightarrow> py_error + hbond_result" where
  "hbond angle distance uninit atoms_in selection1 selection2 selection1_type
       cutoff_dist cutoff_angle donor_elements acceptor_elements vectorized =
     (let (atoms, single_model) = as_stack atoms_in
      in case selection2_type_of selection1_type of
           Inl e \<Rightarrow> Inl e
         | Inr selection2_type \<Rightarrow>
     (let (donor1_selection, acceptor1_selection) =
            build_donor_acceptor_selections atoms selection1 selection1_type;
          (donor2_selection, acceptor2_selection) =
            build_donor_acceptor_selections atoms selection2 selection2_type
      in case hbond_priv angle distance (uninit 0) atoms donor1_selection acceptor2_selection
                cutoff_dist cutoff_angle donor_elements acceptor_elements vectorized of
           Inl e \<Rightarrow> Inl e
         | Inr (triplets, pmask) \<Rightarrow>
     (case (if \<not> (donor1_selection = donor2_selection \<and>
                  acceptor1_selection = acceptor2_selection)
            then
              (case hbond_priv angle distance (uninit 1) atoms donor2_selection
                      acceptor1_selection cutoff_dist cutoff_angle donor_elements
                      acceptor_elements vectorized of
                 Inl e \<Rightarrow> Inl e
               | Inr (triplets2, pmask2) \<Rightarrow>
                   let triplets' = triplets @ triplets2;
                       pmask' = map (\<lambda>(r, r2). r @ r2) (zip pmask pmask2)
                   in if length triplets' > 0
                      then let (u, unique_indices) = np_unique triplets'
                           in Inr (u, take_cols pmask' unique_indices)
                      else Inr (triplets', pmask'))
            else Inr (triplets, pmask)) of
        Inl e \<Rightarrow> Inl e
      | Inr (ts, m) \<Rightarrow> Inr (if single_model then Triplets ts else TripletsMask ts m))))"

section \<open>The PDBx file (biopython/structure/io/pdbx/file.py)\<close>

subsection \<open>Strings, slices and dictionaries of Python\<close>

text \<open>
  A slice bound of Python on a sequence of length \<open>n\<close>: a negative bound counts from
  the end, and every bound is clipped to the sequence.
\<close>

definition slice_bound :: "nat \<Rightarrow> int \<Rightarrow> nat" where
  "slice_bound n i = (if i < 0 then nat (max 0 (int n + i)) else min n (nat i))"

text \<open>\<open>xs[a:b]\<close>, \<open>del xs[a:b]\<close> and \<open>xs[a:a] = new\<close>.\<close>

definition py_slice :: "'a list \<Rightarrow> int \<Rightarrow> int \<Rightarrow> 'a list" where
  "py_slice xs a b =
     (let lo = slice_bound (length xs) a; hi = slice_bound (length xs) b
      in take (hi - lo) (drop lo xs))"

definition py_del_slice :: "'a list \<Rightarrow> int \<Rightarrow> int \<Rightarrow> 'a list" where
  "py_del_slice xs a b =
     (let lo = slice_bound (length xs) a; hi = slice_bound (length xs) b
      in take lo xs @ drop (max lo hi) xs)"

definition py_insert :: "'a list \<Rightarrow> int \<Rightarrow> 'a list \<Rightarrow> 'a list" where
  "py_insert xs a new = (let lo = slice_bound (length xs) a in take lo xs @ new @ drop lo xs)"

text \<open>\<open>s.find(c)\<close> for a character: the first index of \<open>c\<close>, or -1.\<close>

fun find_char :: "string \<Rightarrow> char \<Rightarrow> int" where
  "find_char [] c = - 1"
| "find_char (x # xs) c =
     (if x = c then 0 else (let r = find_char xs c in if r < 0 then - 1 else r + 1))"

text \<open>\<open>s.split(c)\<close> for a character: the pieces between the occurrences of \<open>c\<close>.\<close>

fun split_char :: "char \<Rightarrow> string \<Rightarrow> string list" where
  "split_char c [] = [[]]"
| "split_char c (x # xs) =
     (case split_char c xs of
        [] \<Rightarrow> [[x]]
      | p # ps \<Rightarrow> if x = c then [] # p # ps else (x # p) # ps)"

text \<open>\<open>s.strip()\<close>: the white space of ASCII is removed at both ends.\<close>

definition is_space :: "char \<Rightarrow> bool" where
  "is_space c \<longleftrightarrow>
     c \<in> set [CHR '' '', CHR 0x09, CHR 0x0A, CHR 0x0B, CHR 0x0C, CHR 0x0D,
              CHR 0x1C, CHR 0x1D, CHR 0x1E, CHR 0x1F]"

definition strip :: "string \<Rightarrow> string" where
  "strip s = rev (dropWhile is_space (rev (dropWhile is_space s)))"

definition startswith :: "string \<Rightarrow> string \<Rightarrow> bool" where
  "startswith s prefix \<longleftrightarrow> take (length prefix) s = prefix"

text \<open>
  A dictionary keeps its keys in the order of their first insertion: an association
  list, written with \<open>AList.update\<close> and read with \<open>map_of\<close>.
\<close>

subsection \<open>The file and its index of categories\<close>

record category_info =
  start :: int
  stop :: int
  loop :: bool
  multiline :: bool

record pdbx_file =
  lines :: "string list"
  categories :: "((string \<times> string) \<times> category_info) list"

text \<open>\<open>PDBxFile()\<close>.\<close>

definition new_file :: pdbx_file where
  "new_file = \<lparr>lines = [], categories = []\<rparr>"

text \<open>The functions of the module on single lines.\<close>

definition is_empty :: "string \<Rightarrow> bool" where
  "is_empty line \<longleftrightarrow> length line = 0 \<or> hd line = CHR ''#''"

definition data_block_name :: "string \<Rightarrow> string option" where
  "data_block_name line = (if startswith line ''data_'' then Some (drop 5 line) else None)"

definition is_loop_start :: "string \<Rightarrow> bool" where
  "is_loop_start line = startswith line ''loop_''"

text \<open>\<open>line[0]\<close> raises \<open>IndexError\<close> on the empty line.\<close>

definition is_multi :: "string \<Rightarrow> bool \<Rightarrow> py_error + bool" where
  "is_multi line is_loop =
     (case line of
        [] \<Rightarrow> Inl IndexError
      | c # _ \<Rightarrow>
          if is_loop then Inr (c = CHR '';'')
          else Inr (c \<in> set [CHR '';'', CHR 0x27, CHR 0x22]))"

definition get_category_name :: "string \<Rightarrow> py_error + string option" where
  "get_category_name line =
     (case line of
        [] \<Rightarrow> Inl IndexError
      | c # _ \<Rightarrow>
          if c \<noteq> CHR ''_'' then Inr None
          else Inr (Some (py_slice line 1 (find_char line CHR ''.''))))"

text \<open>
  \<open>_add_category\<close>: nothing is stored while no category is open
  (\<open>category_name is None\<close>).
\<close>

definition add_category ::
  "((string \<times> string) \<times> category_info) list \<Rightarrow> string \<Rightarrow> string option \<Rightarrow> int \<Rightarrow> int
     \<Rightarrow> bool \<Rightarrow> bool \<Rightarrow> ((string \<times> string) \<times> category_info) list" where
  "add_category cats block category_name start' stop' is_loop is_multilined =
     (case category_name of
        None \<Rightarrow> cats
      | Some name \<Rightarrow>
          AList.update (block, name)
            \<lparr>start = start', stop = stop', loop = is_loop, multiline = is_multilined\<rparr> cats)"

subsection \<open>Reading a file\<close>

text \<open>
  The local variables of \<open>read\<close>. The loop assigns \<open>data_block\<close> at a line that starts
  with \<open>data_\<close> and reads it at every call of \<open>_add_category\<close>: before the first
  assignment the variable is unbound (\<open>None\<close> here) and reading it raises
  \<open>UnboundLocalError\<close>. (The variable \<open>current_data_block\<close>, set to the empty string
  before the loop, is never read.)
\<close>

record parse_state =
  data_block :: "string option"
  current_category :: "string option"
  cur_start :: int
  cur_stop :: int
  cur_is_loop :: bool
  has_multiline_values :: bool
  cats :: "((string \<times> string) \<times> category_info) list"

text \<open>
  The body of the loop for line \<open>i\<close>, which is not empty and no comment; \<open>rest\<close> holds
  the lines after it, so that \<open>self._lines[i+1]\<close> is the head of \<open>rest\<close>.
\<close>

definition read_line :: "nat \<Rightarrow> string \<Rightarrow> string list \<Rightarrow> parse_state \<Rightarrow> py_error + parse_state" where
  "read_line i line rest st =
     (let st1 = (case data_block_name line of
                   None \<Rightarrow> st
                 | Some name \<Rightarrow>
                     st\<lparr>data_block := Some name, current_category := None, cur_start := - 1,
                        cur_stop := - 1, cur_is_loop := False, has_multiline_values := False\<rparr>);
          is_loop_in_line = is_loop_start line
      in case get_category_name line of
           Inl e \<Rightarrow> Inl e
         | Inr category_in_line \<Rightarrow>
     (case (if is_loop_in_line \<or>
               (category_in_line \<noteq> current_category st1 \<and> category_in_line \<noteq> None)
            then
              (case data_block st1 of
                 None \<Rightarrow> Inl UnboundLocalError
               | Some block \<Rightarrow>
                   let cats' = add_category (cats st1) block (current_category st1)
                                 (cur_start st1) (int i) (cur_is_loop st1) (has_multiline_values st1)
                   in case (if is_loop_in_line
                            then (case rest of
                                    [] \<Rightarrow> Inl IndexError
                                  | next_line # _ \<Rightarrow> get_category_name next_line)
                            else Inr category_in_line) of
                        Inl e \<Rightarrow> Inl e
                      | Inr category \<Rightarrow>
                          Inr (st1\<lparr>cats := cats', cur_stop := int i, cur_is_loop := is_loop_in_line,
                                   current_category := category, cur_start := int i,
                                   has_multiline_values := False\<rparr>))
            else Inr st1) of
        Inl e \<Rightarrow> Inl e
      | Inr st2 \<Rightarrow>
          (case is_multi line (cur_is_loop st2) of
             Inl e \<Rightarrow> Inl e
           | Inr multi \<Rightarrow>
               Inr (if multi then st2\<lparr>has_multiline_values := True\<rparr> else st2))))"

fun read_lines :: "nat \<Rightarrow> string list \<Rightarrow> parse_state \<Rightarrow> py_error + parse_state" where
  "read_lines i [] st = Inr st"
| "read_lines i (line # rest) st =
     (if is_empty line then read_lines (Suc i) rest st
      else (case read_line i line rest st of
              Inl e \<Rightarrow> Inl e
            | Inr st' \<Rightarrow> read_lines (Suc i) rest st'))"

text \<open>
  \<open>read\<close>, from the text of the file: the text is split at the newlines, an empty last
  line is dropped, the lines are scanned, and the category that is open at the end of the
  file is added.
\<close>

definition read :: "pdbx_file \<Rightarrow> string \<Rightarrow> py_error + pdbx_file" where
  "read self str_data =
     (let all_lines = split_char CHR 0x0A str_data;
          lines' = (if last all_lines = [] then butlast all_lines else all_lines);
          st0 = \<lparr>data_block = None, current_category = None, cur_start = - 1, cur_stop = - 1,
                 cur_is_loop = False, has_multiline_values = False, cats = categories self\<rparr>
      in case read_lines 0 lines' st0 of
           Inl e \<Rightarrow> Inl e
         | Inr st \<Rightarrow>
             (case data_block st of
                None \<Rightarrow> Inl UnboundLocalError
              | Some block \<Rightarrow>
                  Inr \<lparr>lines = lines',
                       categories = add_category (cats st) block (current_category st)
                         (cur_start st) (int (length lines')) (cur_is_loop st)
                         (has_multiline_values st)\<rparr>))"

subsection \<open>Materializing a category\<close>

text \<open>
  \<open>shlex.split\<close> and \<open>shlex.quote\<close> belong to the standard library of Python; the
  functions that call them take them as the parameters \<open>split\<close> (which raises
  \<open>ValueError\<close> on an unclosed quotation) and \<open>quote_fn\<close>.

  The arrays of a looped category are allocated by \<open>np.zeros(n, dtype=object)\<close>: their
  entries are the integer 0 until a string is stored.
\<close>

datatype pyobj = PyInt int | PyStr string

datatype category =
  SingleValued "(string \<times> string) list"
  | Looped "(string \<times> pyobj list) list"

fun get_block_names_from :: "string list \<Rightarrow> ((string \<times> string) \<times> 'a) list \<Rightarrow> string list" where
  "get_block_names_from blocks [] = blocks"
| "get_block_names_from blocks ((category_tuple, info) # rest) =
     (let block = fst category_tuple
      in get_block_names_from (if block \<notin> set blocks then blocks @ [block] else blocks) rest)"

definition get_block_names :: "pdbx_file \<Rightarrow> string list" where
  "get_block_names self = get_block_names_from [] (categories self)"

text \<open>
  The conversion of multiline values in \<open>get_category\<close>. \<open>built\<close> holds the entries
  \<open>lines[0], ..., lines[k-1]\<close> that are set; \<open>lines[k-1] += ...\<close> with \<open>k = 0\<close> adds a
  string to \<open>None\<close> and raises \<open>TypeError\<close>. \<open>in_block\<close> is true inside the inner
  \<open>while\<close> loop, which runs to the next line that is a single semicolon and raises
  \<open>IndexError\<close> at the end of the lines.
\<close>

definition append_last :: "string list \<Rightarrow> string \<Rightarrow> py_error + string list" where
  "append_last built s =
     (if built = [] then Inl TypeError else Inr (butlast built @ [last built @ s]))"

fun merge_multiline :: "bool \<Rightarrow> bool \<Rightarrow> string list \<Rightarrow> string list \<Rightarrow> py_error + string list" where
  "merge_multiline is_loop in_block built [] =
     (if in_block then Inl IndexError else Inr built)"
| "merge_multiline is_loop in_block built (l # ls) =
     (if in_block then
        (if l = '';'' then
           (case append_last built [CHR 0x27] of
              Inl e \<Rightarrow> Inl e
            | Inr built' \<Rightarrow> merge_multiline is_loop False built' ls)
         else
           (case append_last built l of
              Inl e \<Rightarrow> Inl e
            | Inr built' \<Rightarrow> merge_multiline is_loop True built' ls))
      else
        (case l of
           [] \<Rightarrow> Inl IndexError
         | c # cs \<Rightarrow>
             if c = CHR '';'' then
               (case append_last built ([CHR '' '', CHR 0x27] @ cs) of
                  Inl e \<Rightarrow> Inl e
                | Inr built' \<Rightarrow> merge_multiline is_loop True built' ls)
             else if \<not> is_loop \<and> c \<in> set [CHR 0x27, CHR 0x22] then
               (case append_last built ('' '' @ l) of
                  Inl e \<Rightarrow> Inl e
                | Inr built' \<Rightarrow> merge_multiline is_loop False built' ls)
             else merge_multiline is_loop False (built @ [l]) ls))"

text \<open>\<open>_process_singlevalued\<close>.\<close>

fun process_singlevalued ::
  "(string \<Rightarrow> py_error + string list) \<Rightarrow> (string \<times> string) list \<Rightarrow> string list
     \<Rightarrow> py_error + (string \<times> string) list" where
  "process_singlevalued split category_dict [] = Inr category_dict"
| "process_singlevalued split category_dict (line # rest) =
     (case split line of
        Inl e \<Rightarrow> Inl e
      | Inr parts \<Rightarrow>
          (case parts of
             [] \<Rightarrow> Inl IndexError
           | p0 # ps \<Rightarrow>
               (case split_char CHR ''.'' p0 of
                  _ # key # _ \<Rightarrow>
                    (case ps of
                       [] \<Rightarrow> Inl IndexError
                     | v # _ \<Rightarrow> process_singlevalued split (AList.update key v category_dict) rest)
                | _ \<Rightarrow> Inl IndexError)))"

text \<open>
  \<open>_process_looped\<close>. The state of its loop: the dictionary of arrays, the keys, the
  row index \<open>i\<close> and the key index \<open>j\<close>. \<open>keys_length\<close> is the length of \<open>keys\<close> at
  every moment at which it is read.
\<close>

record loop_state =
  lp_dict :: "(string \<times> pyobj list) list"
  lp_keys :: "string list"
  lp_i :: nat
  lp_j :: nat

fun fill_values :: "string list \<Rightarrow> loop_state \<Rightarrow> py_error + loop_state" where
  "fill_values [] st = Inr st"
| "fill_values (v # vs) st =
     (if lp_j st \<ge> length (lp_keys st) then Inl IndexError
      else
        let key = lp_keys st ! lp_j st
        in case map_of (lp_dict st) key of
             None \<Rightarrow> Inl KeyError
           | Some arr \<Rightarrow>
               if lp_i st \<ge> length arr then Inl IndexError
               else
                 let st1 = st\<lparr>lp_dict := AList.update key (arr[lp_i st := PyStr v]) (lp_dict st),
                              lp_j := lp_j st + 1\<rparr>;
                     st2 = (if lp_j st1 = length (lp_keys st1)
                            then st1\<lparr>lp_j := 0, lp_i := lp_i st1 + 1\<rparr> else st1)
                 in fill_values vs st2)"

definition process_looped_line ::
  "(string \<Rightarrow> py_error + string list) \<Rightarrow> nat \<Rightarrow> string \<Rightarrow> loop_state \<Rightarrow> py_error + loop_state" where
  "process_looped_line split n line st =
     (case line of
        [] \<Rightarrow> Inl IndexError
      | c # _ \<Rightarrow>
          if c = CHR ''_'' then
            (case split_char CHR ''.'' line of
               _ # key # _ \<Rightarrow>
                 Inr (st\<lparr>lp_keys := lp_keys st @ [key],
                         lp_dict := AList.update key (replicate n (PyInt 0)) (lp_dict st)\<rparr>)
             | _ \<Rightarrow> Inl IndexError)
          else
            (case split line of
               Inl e \<Rightarrow> Inl e
             | Inr tokens \<Rightarrow> fill_values tokens st))"

fun process_looped_lines ::
  "(string \<Rightarrow> py_error + string list) \<Rightarrow> nat \<Rightarrow> string list \<Rightarrow> loop_state \<Rightarrow> py_error + loop_state" where
  "process_looped_lines split n [] st = Inr st"
| "process_looped_lines split n (line # rest) st =
     (case process_looped_line split n line st of
        Inl e \<Rightarrow> Inl e
      | Inr st' \<Rightarrow> process_looped_lines split n rest st')"

definition process_looped ::
  "(string \<Rightarrow> py_error + string list) \<Rightarrow> string list \<Rightarrow> py_error + (string \<times> pyobj list) list" where
  "process_looped split lines' =
     (case process_looped_lines split (length lines') lines'
             \<lparr>lp_dict = [], lp_keys = [], lp_i = 0, lp_j = 0\<rparr> of
        Inl e \<Rightarrow> Inl e
      | Inr st \<Rightarrow> Inr (map (\<lambda>(key, arr). (key, take (lp_i st) arr)) (lp_dict st)))"

text \<open>
  On a line without quotation marks, backslashes and comment signs \<open>shlex.split\<close>
  returns the words between white space, as \<open>plain_split\<close> does; the examples below are
  such lines.
\<close>

fun ws_tokens :: "string \<Rightarrow> string \<Rightarrow> string list" where
  "ws_tokens cur [] = (if cur = [] then [] else [cur])"
| "ws_tokens cur (c # cs) =
     (if is_space c then (if cur = [] then ws_tokens [] cs else cur # ws_tokens [] cs)
      else ws_tokens (cur @ [c]) cs)"

definition plain_split :: "string \<Rightarrow> py_error + string list" where
  "plain_split s = Inr (ws_tokens [] s)"

text \<open>\<open>get_category(category, block=None)\<close>.\<close>

definition default_block :: "pdbx_file \<Rightarrow> string option \<Rightarrow> py_error + string" where
  "default_block self block =
     (case block of
        Some b \<Rightarrow> Inr b
      | None \<Rightarrow> (case get_block_names self of [] \<Rightarrow> Inl IndexError | b # _ \<Rightarrow> Inr b))"

definition get_category ::
  "(string \<Rightarrow> py_error + string list) \<Rightarrow> pdbx_file \<Rightarrow> string \<Rightarrow> string option
     \<Rightarrow> py_error + category" where
  "get_category split self category block_arg =
     (case default_block self block_arg of
        Inl e \<Rightarrow> Inl e
      | Inr block \<Rightarrow>
     (case map_of (categories self) (block, category) of
        None \<Rightarrow> Inl KeyError
      | Some category_info \<Rightarrow>
     (let pre_lines = map strip (filter (\<lambda>line. \<not> is_empty line \<and> \<not> is_loop_start line)
                        (py_slice (lines self) (start category_info) (stop category_info)))
      in case (if multiline category_info
               then merge_multiline (loop category_info) False [] pre_lines
               else Inr pre_lines) of
           Inl e \<Rightarrow> Inl e
         | Inr lines' \<Rightarrow>
             if loop category_info
             then map_sum id Looped (process_looped split lines')
             else map_sum id SingleValued (process_singlevalued split [] lines'))))"

subsection \<open>Writing a category\<close>

text \<open>
  The lines of a category in \<open>set_category\<close>, before the closing comment line. The
  category is looped when its first value is an array; the dictionary needs a first
  value. Taking the length of an array entry that is no string, or quoting it, raises
  \<open>TypeError\<close>; an array that is shorter than the first one raises \<open>IndexError\<close>.
\<close>

definition max_len :: "string list \<Rightarrow> nat" where
  "max_len xs = foldl (\<lambda>m x. if length x > m then length x else m) 0 xs"

fun str_of :: "pyobj \<Rightarrow> py_error + string" where
  "str_of (PyStr s) = Inr s"
| "str_of (PyInt n) = Inl TypeError"

fun strs_of :: "pyobj list \<Rightarrow> py_error + string list" where
  "strs_of [] = Inr []"
| "strs_of (x # xs) =
     (case str_of x of
        Inl e \<Rightarrow> Inl e
      | Inr s \<Rightarrow> (case strs_of xs of Inl e \<Rightarrow> Inl e | Inr ss \<Rightarrow> Inr (s # ss)))"

fun columns_of :: "(string \<times> pyobj list) list \<Rightarrow> py_error + string list list" where
  "columns_of [] = Inr []"
| "columns_of ((key, arr) # rest) =
     (case strs_of arr of
        Inl e \<Rightarrow> Inl e
      | Inr col \<Rightarrow> (case columns_of rest of Inl e \<Rightarrow> Inl e | Inr cols \<Rightarrow> Inr (col # cols)))"

definition pad :: "string \<Rightarrow> nat \<Rightarrow> string" where
  "pad s width = s @ replicate (width - length s) CHR '' ''"

definition render_category ::
  "(string \<Rightarrow> string) \<Rightarrow> string \<Rightarrow> category \<Rightarrow> bool \<Rightarrow> py_error + string list \<times> bool" where
  "render_category quote_fn category category_dict quote =
     (case category_dict of
        SingleValued kvs \<Rightarrow>
          if kvs = [] then Inl IndexError
          else
            let kvs' = (if quote then map (\<lambda>(key, v). (key, quote_fn v)) kvs else kvs);
                req_len = max_len (map fst kvs') + 3
            in Inr (map (\<lambda>(key, v). ''_'' @ category @ ''.'' @ pad key req_len @ v) kvs', False)
      | Looped kas \<Rightarrow>
          if kas = [] then Inl IndexError
          else
            (case columns_of kas of
               Inl e \<Rightarrow> Inl e
             | Inr cols \<Rightarrow>
                 let value_arr = (if quote then map (map quote_fn) cols else cols);
                     key_lines = map (\<lambda>(key, arr). ''_'' @ category @ ''.'' @ key) kas;
                     col_lens = map (\<lambda>column. max_len column + 1) value_arr;
                     arr_len = length (hd value_arr)
                 in if arr_len > 0 \<and> list_ex (\<lambda>arr. length arr < arr_len) value_arr
                    then Inl IndexError
                    else
                      Inr ([''loop_''] @ key_lines @
                           map (\<lambda>i. concat (map (\<lambda>(arr, w). pad (arr ! i) w) (zip value_arr col_lens)))
                             [0..<arr_len],
                           True)))"

text \<open>
  The searches of \<open>set_category\<close> for the place of a new category: the greatest \<open>stop\<close>
  among the categories of the block, or among all categories, starting from 0.
\<close>

definition last_stop_in_block :: "pdbx_file \<Rightarrow> string \<Rightarrow> int" where
  "last_stop_in_block self block =
     foldl (\<lambda>last_stop (category_tuple, info).
              if block = fst category_tuple
              then (if last_stop < stop info then stop info else last_stop)
              else last_stop)
       0 (categories self)"

definition last_stop_all :: "pdbx_file \<Rightarrow> int" where
  "last_stop_all self =
     foldl (\<lambda>last_stop (category_tuple, info).
              if last_stop < stop info then stop info else last_stop)
       0 (categories self)"

text \<open>
  The last loop of \<open>set_category\<close>: every category that starts after \<open>category_start\<close>
  is moved by \<open>len_diff\<close>.
\<close>

definition shift_after ::
  "int \<Rightarrow> int \<Rightarrow> ((string \<times> string) \<times> category_info) list
     \<Rightarrow> ((string \<times> string) \<times> category_info) list" where
  "shift_after category_start len_diff cs =
     map (\<lambda>(category_tuple, info).
            (category_tuple,
             if start info > category_start
             then info\<lparr>start := start info + len_diff, stop := stop info + len_diff\<rparr>
             else info))
       cs"

text \<open>
  \<open>set_category(category, category_dict, block=None, quote=True)\<close>. (Quoting also
  changes the caller's dictionary; only the file is modelled.)
\<close>

definition set_category ::
  "(string \<Rightarrow> string) \<Rightarrow> pdbx_file \<Rightarrow> string \<Rightarrow> category \<Rightarrow> string option \<Rightarrow> bool
     \<Rightarrow> py_error + pdbx_file" where
  "set_category quote_fn self category category_dict block_arg quote =
     (case default_block self block_arg of
        Inl e \<Rightarrow> Inl e
      | Inr block \<Rightarrow>
     (case render_category quote_fn category category_dict quote of
        Inl e \<Rightarrow> Inl e
      | Inr (rendered, is_looped) \<Rightarrow>
     (let new_lines = rendered @ [''#'']
      in case map_of (categories self) (block, category) of
           Some category_info \<Rightarrow>
             let old_category_start = start category_info;
                 old_category_stop = stop category_info;
                 category_start = old_category_start;
                 len_diff = int (length new_lines) - (old_category_stop - old_category_start);
                 lines1 = py_del_slice (lines self) old_category_start old_category_stop;
                 lines2 = py_insert lines1 category_start new_lines;
                 info' = category_info\<lparr>start := category_start,
                           stop := category_start + int (length new_lines),
                           multiline := False, loop := is_looped\<rparr>
             in Inr \<lparr>lines = lines2,
                     categories = shift_after category_start len_diff
                       (AList.update (block, category) info' (categories self))\<rparr>
         | None \<Rightarrow>
             if block \<in> set (get_block_names self) then
               let category_start = last_stop_in_block self block;
                   category_stop = category_start + int (length new_lines);
                   len_diff = int (length new_lines)
               in Inr \<lparr>lines = py_insert (lines self) category_start new_lines,
                       categories = shift_after category_start len_diff
                         (add_category (categories self) block (Some category) category_start
                            category_stop is_looped False)\<rparr>
             else
               let new_lines' = [''data_'' @ block, ''#''] @ new_lines;
                   last_stop = last_stop_all self;
                   category_start = last_stop + 2;
                   category_stop = last_stop + int (length new_lines');
                   len_diff = int (length new_lines') - 2
               in Inr \<lparr>lines = py_insert (lines self) last_stop new_lines',
                       categories = shift_after category_start len_diff
                         (add_category (categories self) block (Some category) category_start
                            category_stop is_looped False)\<rparr>)))"

text \<open>
  The place of the edit that \<open>set_category\<close> makes in the lines: the start of the
  category that it replaces, or the line in front of which it writes the new lines.
\<close>

definition edit_point :: "pdbx_file \<Rightarrow> string \<Rightarrow> string \<Rightarrow> int" where
  "edit_point self block category =
     (case map_of (categories self) (block, category) of
        Some category_info \<Rightarrow> start category_info
      | None \<Rightarrow>
          if block \<in> set (get_block_names self) then last_stop_in_block self block
          else last_stop_all self)"

text \<open>
  The index of a file fits its lines when every category is a range of lines of the file.
\<close>

definition range_ok :: "int \<Rightarrow> (string \<times> string) \<times> category_info \<Rightarrow> bool" where
  "range_ok n =
     (\<lambda>(category_tuple, info). 0 \<le> start info \<and> start info \<le> stop info \<and> stop info \<le> n)"

definition index_ok :: "pdbx_file \<Rightarrow> bool" where
  "index_ok self \<longleftrightarrow> list_all (range_ok (int (length (lines self)))) (categories self)"

text \<open>
  A stronger property of the index, on the dictionary as a map: every category is a range
  of at least one line of the file, two categories do not overlap, and a category of one
  block does not end where a category of another block starts (the line that opens the
  other block lies between them).
\<close>

definition wf_map :: "int \<Rightarrow> (string \<times> string \<rightharpoonup> category_info) \<Rightarrow> bool" where
  "wf_map n m \<longleftrightarrow>
     (\<forall>k i. m k = Some i \<longrightarrow> 0 \<le> start i \<and> start i < stop i \<and> stop i \<le> n) \<and>
     (\<forall>k1 i1 k2 i2. m k1 = Some i1 \<and> m k2 = Some i2 \<and> k1 \<noteq> k2 \<longrightarrow>
        (stop i1 \<le> start i2 \<or> stop i2 \<le> start i1) \<and>
        (fst k1 \<noteq> fst k2 \<longrightarrow> stop i1 \<noteq> start i2))"

definition index_wf :: "pdbx_file \<Rightarrow> bool" where
  "index_wf self \<longleftrightarrow>
     distinct (map fst (categories self)) \<and>
     wf_map (int (length (lines self))) (map_of (categories self))"

text \<open>What the last loop of \<open>set_category\<close> does to one category.\<close>

definition shifted :: "int \<Rightarrow> int \<Rightarrow> category_info \<Rightarrow> category_info" where
  "shifted c d info =
     (if start info > c then info\<lparr>start := start info + d, stop := stop info + d\<rparr> else info)"

text \<open>
  The invariant of the loop of \<open>read\<close> in front of line \<open>i\<close>: the stored categories
  are well formed ranges of the lines read so far; they end before line \<open>i\<close> when no
  category is open, and otherwise at or before the start of the open category, those of
  other blocks strictly before it.
\<close>

definition stops_bound ::
  "(string \<times> string \<rightharpoonup> category_info) \<Rightarrow> string option \<Rightarrow> int \<Rightarrow> bool" where
  "stops_bound m blk c \<longleftrightarrow>
     (\<forall>k info. m k = Some info \<longrightarrow> stop info \<le> c \<and> (Some (fst k) \<noteq> blk \<longrightarrow> stop info < c))"

definition parse_wf :: "nat \<Rightarrow> parse_state \<Rightarrow> bool" where
  "parse_wf i st \<longleftrightarrow>
     distinct (map fst (cats st)) \<and>
     wf_map (int i) (map_of (cats st)) \<and>
     (case current_category st of
        None \<Rightarrow> (\<forall>k info. map_of (cats st) k = Some info \<longrightarrow> stop info < int i)
      | Some c \<Rightarrow>
          0 \<le> cur_start st \<and> cur_start st < int i \<and>
          stops_bound (map_of (cats st)) (data_block st) (cur_start st))"

subsection \<open>Copying a file\<close>

text \<open>
  The names that the module binds: its imports (\<open>shlex\<close>, \<open>numpy\<close> as \<open>np\<close> and
  \<open>File\<close>), its class and its functions. A name that a method reads and that is
  neither local nor bound by the module nor built in raises \<open>NameError\<close>; \<open>copy\<close> is
  no built-in name of Python.
\<close>

definition module_names :: "string list" where
  "module_names =
     [''shlex'', ''np'', ''File'', ''PDBxFile'', ''_is_empty'', ''_data_block_name'',
      ''_is_loop_start'', ''_is_multi'', ''_get_category_name'']"

text \<open>
  \<open>copy\<close>: a new file is made, then \<open>copy.deepcopy\<close> is evaluated. The method has no
  \<open>return\<close> statement: it would return \<open>None\<close> (the \<open>None\<close> below) if the name were bound.
  The result comes with the file itself after the call.
\<close>

definition copy :: "pdbx_file \<Rightarrow> (py_error + pdbx_file option) \<times> pdbx_file" where
  "copy self =
     (let pdbx_file = new_file
      in if ''copy'' \<notin> set ([''self'', ''pdbx_file''] @ module_names)
         then (Inl NameError, self)
         else (let pdbx_file' = pdbx_file\<lparr>lines := lines self, categories := categories self\<rparr>
               in (Inr None, self)))"

section \<open>Properties\<close>

lemma length_add_row:
  "length row = length acc \<Longrightarrow> length (add_row acc row) = length acc"
  by (simp add: add_row_def)

lemma nth_add_row:
  "length row = length acc \<Longrightarrow> t < length acc \<Longrightarrow>
     add_row acc row ! t = acc ! t + of_bool (row ! t)"
  by (simp add: add_row_def)

lemma foldl_add_row:
  "(\<And>row. row \<in> set rs \<Longrightarrow> length row = length acc) \<Longrightarrow>
     length (foldl add_row acc rs) = length acc \<and>
     (\<forall>t < length acc.
        foldl add_row acc rs ! t = acc ! t + int (length (filter (\<lambda>row. row ! t) rs)))"
proof (induction rs arbitrary: acc)
  case Nil
  then show ?case by simp
next
  case (Cons r rs)
  have len: "length r = length acc"
    using Cons.prems by simp
  have rest: "\<And>row. row \<in> set rs \<Longrightarrow> length row = length (add_row acc r)"
    using Cons.prems len by (simp add: length_add_row)
  from Cons.IH [OF rest] len show ?case
    by (auto simp: length_add_row nth_add_row)
qed

lemma sum_axis0_count:
  assumes "pmask \<noteq> []" and "\<And>row. row \<in> set pmask \<Longrightarrow> length row = T"
  shows "length (sum_axis0 pmask) = T"
    and "t < T \<Longrightarrow> sum_axis0 pmask ! t = int (length (filter (\<lambda>row. row ! t) pmask))"
proof -
  obtain r rs where pmask: "pmask = r # rs"
    using assms(1) by (cases pmask) auto
  have r: "length r = T" and rs: "\<And>row. row \<in> set rs \<Longrightarrow> length row = length (map of_bool r :: int list)"
    using assms(2) pmask by auto
  note f = foldl_add_row [OF rs]
  show "length (sum_axis0 pmask) = T"
    using f r by (simp add: sum_axis0_def pmask)
  show "sum_axis0 pmask ! t = int (length (filter (\<lambda>row. row ! t) pmask))" if "t < T"
    using f r that by (simp add: sum_axis0_def pmask)
qed

text \<open>
  C6. For an M x T presence mask with at least one model, \<open>hbond_frequency\<close> returns a
  vector of length T whose entry t is the number of models in which column t is true,
  divided by M. Every entry lies between 0 and 1; a column that is true in every model
  gives 1 and a column that is false in every model gives 0. The function is pure: it
  returns a new vector and has no access to anything but its argument.
\<close>

theorem hbond_frequency_counts:
  assumes "pmask \<noteq> []" and "\<forall>row \<in> set pmask. length row = T"
  shows "\<exists>freq. hbond_frequency pmask = Some freq \<and> length freq = T \<and>
           (\<forall>t < T.
              freq ! t = real (length (filter (\<lambda>row. row ! t) pmask)) / real (length pmask) \<and>
              0 \<le> freq ! t \<and> freq ! t \<le> 1 \<and>
              ((\<forall>row \<in> set pmask. row ! t) \<longrightarrow> freq ! t = 1) \<and>
              ((\<forall>row \<in> set pmask. \<not> row ! t) \<longrightarrow> freq ! t = 0))"
proof -
  let ?M = "length pmask"
  let ?freq = "map (\<lambda>s. real_of_int s / real ?M) (sum_axis0 pmask)"
  have rows: "\<And>row. row \<in> set pmask \<Longrightarrow> length row = T"
    using assms(2) by simp
  have M: "0 < ?M"
    using assms(1) by simp
  have res: "hbond_frequency pmask = Some ?freq"
    using M by (simp add: hbond_frequency_def)
  have len: "length ?freq = T"
    by (simp add: sum_axis0_count(1) [OF assms(1) rows])
  have entry: "?freq ! t = real (length (filter (\<lambda>row. row ! t) pmask)) / real ?M" if "t < T" for t
    using that sum_axis0_count [OF assms(1) rows] by simp
  have props: "0 \<le> ?freq ! t \<and> ?freq ! t \<le> 1 \<and>
      ((\<forall>row \<in> set pmask. row ! t) \<longrightarrow> ?freq ! t = 1) \<and>
      ((\<forall>row \<in> set pmask. \<not> row ! t) \<longrightarrow> ?freq ! t = 0)" if "t < T" for t
  proof -
    let ?c = "length (filter (\<lambda>row. row ! t) pmask)"
    have le: "?c \<le> ?M" by simp
    have "real ?c / real ?M \<le> 1"
      using le M by simp
    moreover have "0 \<le> real ?c / real ?M" by simp
    moreover have "real ?c / real ?M = 1" if "\<forall>row \<in> set pmask. row ! t"
    proof -
      have "filter (\<lambda>row. row ! t) pmask = pmask"
        using that by (simp add: filter_id_conv)
      then show ?thesis using M by simp
    qed
    moreover have "real ?c / real ?M = 0" if "\<forall>row \<in> set pmask. \<not> row ! t"
    proof -
      have "filter (\<lambda>row. row ! t) pmask = []"
        using that by (simp add: filter_empty_conv)
      then show ?thesis by simp
    qed
    ultimately show ?thesis
      using entry [OF \<open>t < T\<close>] by simp
  qed
  show ?thesis
    using res len entry props by blast
qed

theorem hbond_frequency_counts_witness:
  "hbond_frequency [[True, False, True], [True, False, False]] = Some [1, 0, 1 / 2]"
proof -
  let ?pmask = "[[True, False, True], [True, False, False]]"
  have ne: "?pmask \<noteq> []" by simp
  have rows: "\<forall>row \<in> set ?pmask. length row = 3" by simp
  from hbond_frequency_counts [OF ne rows] obtain freq where
    freq: "hbond_frequency ?pmask = Some freq" "length freq = 3"
      and entries: "\<forall>t < 3. freq ! t = real (length (filter (\<lambda>row. row ! t) ?pmask)) / real (length ?pmask)"
    by blast
  have vals: "freq ! 0 = 1" "freq ! 1 = 0" "freq ! 2 = 1 / 2"
    using entries [rule_format, of 0] entries [rule_format, of 1] entries [rule_format, of 2]
    by simp_all
  have eq: "freq = [freq ! 0, freq ! 1, freq ! 2]"
    using freq(2) by (auto simp: list_eq_iff_nth_eq less_Suc_eq numeral_3_eq_3 numeral_2_eq_2)
  have "freq = [1, 0, 1 / 2]"
    by (subst eq) (simp only: vals)
  then show ?thesis
    using freq(1) by (simp only:)
qed

lemma is_hbond_nth:
  assumes "length donor = n" "length donor_h = n" "length acceptor = n" "i < n"
  shows "is_hbond angle distance donor donor_h acceptor cutoff_dist cutoff_angle ! i \<longleftrightarrow>
           angle (donor ! i) (donor_h ! i) (acceptor ! i) > deg2rad cutoff_angle \<and>
           distance (donor_h ! i) (acceptor ! i) \<le> cutoff_dist"
  using assms by (simp add: is_hbond_def angle_arr_def distance_arr_def Let_def)

lemma length_is_hbond:
  assumes "length donor = n" "length donor_h = n" "length acceptor = n"
  shows "length (is_hbond angle distance donor donor_h acceptor cutoff_dist cutoff_angle) = n"
  using assms by (simp add: is_hbond_def angle_arr_def distance_arr_def Let_def)

lemma is_hbond_stack_rows:
  "is_hbond_stack angle distance donor donor_h acceptor cutoff_dist cutoff_angle =
     map (\<lambda>(d, h, a). is_hbond angle distance d h a cutoff_dist cutoff_angle)
       (zip donor (zip donor_h acceptor))"
proof (induction donor arbitrary: donor_h acceptor)
  case Nil
  then show ?case
    by (simp add: is_hbond_stack_def angle_stack_def distance_stack_def)
next
  case (Cons d ds)
  show ?case
  proof (cases donor_h)
    case Nil
    then show ?thesis
      by (simp add: is_hbond_stack_def angle_stack_def distance_stack_def)
  next
    case h: (Cons h hs)
    show ?thesis
    proof (cases acceptor)
      case Nil
      then show ?thesis
        by (simp add: is_hbond_stack_def angle_stack_def distance_stack_def h)
    next
      case a: (Cons a as)
      have "is_hbond_stack angle distance (d # ds) (h # hs) (a # as) cutoff_dist cutoff_angle =
              is_hbond angle distance d h a cutoff_dist cutoff_angle #
              is_hbond_stack angle distance ds hs as cutoff_dist cutoff_angle"
        by (simp add: is_hbond_stack_def is_hbond_def angle_stack_def distance_stack_def Let_def)
      then show ?thesis
        using Cons.IH [of hs as] by (simp add: h a)
    qed
  qed
qed

text \<open>
  C4. For donor, hydrogen and acceptor coordinates D, H and A, given as arrays of N
  coordinates or as M x N arrays over the models, the criterion holds at an entry if and
  only if the angle at that entry is strictly greater than the angle cutoff (the cutoff in
  degrees, converted to radians) and the distance between H and A is at most the distance
  cutoff. A geometry at exactly the angle cutoff is no hydrogen bond; one at exactly the
  distance cutoff, with the angle above its cutoff, is one.
\<close>

theorem is_hbond_criterion:
  assumes "length donor = n" "length donor_h = n" "length acceptor = n" "i < n"
    and "length donors = M" "length donor_hs = M" "length acceptors = M" "m < M"
    and "length (donors ! m) = n" "length (donor_hs ! m) = n" "length (acceptors ! m) = n"
  shows "(is_hbond angle distance donor donor_h acceptor cutoff_dist cutoff_angle ! i \<longleftrightarrow>
            angle (donor ! i) (donor_h ! i) (acceptor ! i) > deg2rad cutoff_angle \<and>
            distance (donor_h ! i) (acceptor ! i) \<le> cutoff_dist) \<and>
         (is_hbond_stack angle distance donors donor_hs acceptors cutoff_dist cutoff_angle ! m ! i \<longleftrightarrow>
            angle (donors ! m ! i) (donor_hs ! m ! i) (acceptors ! m ! i) > deg2rad cutoff_angle \<and>
            distance (donor_hs ! m ! i) (acceptors ! m ! i) \<le> cutoff_dist) \<and>
         (angle (donor ! i) (donor_h ! i) (acceptor ! i) = deg2rad cutoff_angle \<longrightarrow>
            \<not> is_hbond angle distance donor donor_h acceptor cutoff_dist cutoff_angle ! i) \<and>
         (angle (donor ! i) (donor_h ! i) (acceptor ! i) > deg2rad cutoff_angle \<and>
          distance (donor_h ! i) (acceptor ! i) = cutoff_dist \<longrightarrow>
            is_hbond angle distance donor donor_h acceptor cutoff_dist cutoff_angle ! i)"
proof -
  note one = is_hbond_nth [OF assms(1-4), of angle distance cutoff_dist cutoff_angle]
  have row: "is_hbond_stack angle distance donors donor_hs acceptors cutoff_dist cutoff_angle ! m =
               is_hbond angle distance (donors ! m) (donor_hs ! m) (acceptors ! m)
                 cutoff_dist cutoff_angle"
    using assms(5-8) by (simp add: is_hbond_stack_rows)
  note two = is_hbond_nth [OF assms(9-11) assms(4), of angle distance cutoff_dist cutoff_angle]
  show ?thesis
    using one two row by simp
qed

theorem is_hbond_criterion_witness:
  "is_hbond (\<lambda>p q r. pi) (\<lambda>p q. \<bar>fst p - fst q\<bar>) [(0, 0, 0)] [(1, 0, 0)] [(3, 0, 0)] 2 120 ! 0 \<and>
   \<not> is_hbond (\<lambda>p q r. deg2rad 120) (\<lambda>p q. \<bar>fst p - fst q\<bar>) [(0, 0, 0)] [(1, 0, 0)] [(3, 0, 0)] 2 120 ! 0 \<and>
   is_hbond_stack (\<lambda>p q r. pi) (\<lambda>p q. \<bar>fst p - fst q\<bar>)
     [[(0, 0, 0)]] [[(1, 0, 0)]] [[(3, 0, 0)]] 2 120 ! 0 ! 0"
proof -
  have pi: "deg2rad 120 < pi"
    using pi_gt_zero by (simp add: deg2rad_def)
  have a: "length [(0, 0, 0) :: point] = 1" "length [(1, 0, 0) :: point] = 1"
    "length [(3, 0, 0) :: point] = 1" "(0::nat) < 1"
    by simp_all
  have b: "length [[(0, 0, 0) :: point]] = 1" "length [[(1, 0, 0) :: point]] = 1"
    "length [[(3, 0, 0) :: point]] = 1" "(0::nat) < 1"
    "length ([[(0, 0, 0) :: point]] ! 0) = 1" "length ([[(1, 0, 0) :: point]] ! 0) = 1"
    "length ([[(3, 0, 0) :: point]] ! 0) = 1"
    by simp_all
  from is_hbond_criterion [OF a b, of "\<lambda>p q r. pi" "\<lambda>p q. \<bar>fst p - fst q\<bar>" 2 120]
    is_hbond_criterion [OF a b, of "\<lambda>p q r. deg2rad 120" "\<lambda>p q. \<bar>fst p - fst q\<bar>" 2 120]
  show ?thesis
    using pi by simp
qed

subsection \<open>The two strategies of the geometric test\<close>

lemma foldl_update_rows:
  "length xs = n \<Longrightarrow> k \<le> n \<Longrightarrow>
     foldl (\<lambda>m i. m[i := f i]) xs [0..<k] = map f [0..<k] @ drop k xs"
proof (induction k)
  case 0
  then show ?case by simp
next
  case (Suc k)
  then have k: "k < length xs" by simp
  have "foldl (\<lambda>m i. m[i := f i]) xs [0..<Suc k] = (map f [0..<k] @ drop k xs)[k := f k]"
    using Suc by simp
  also have "\<dots> = map f [0..<k] @ (drop k xs)[0 := f k]"
    by (simp add: list_update_append)
  also have "(drop k xs)[0 := f k] = f k # drop (Suc k) xs"
    using k by (simp add: Cons_nth_drop_Suc [symmetric])
  finally show ?case by simp
qed

lemma hbond_mask_strategies:
  "hbond_mask_vectorized angle distance crds triplets cutoff_dist cutoff_angle =
   hbond_mask_loop angle distance crds triplets cutoff_dist cutoff_angle"
proof -
  let ?row = "\<lambda>row. is_hbond angle distance (map (\<lambda>i. row ! i) (map fst triplets))
      (map (\<lambda>i. row ! i) (map (\<lambda>t. fst (snd t)) triplets))
      (map (\<lambda>i. row ! i) (map (\<lambda>t. snd (snd t)) triplets)) cutoff_dist cutoff_angle"
  have v: "hbond_mask_vectorized angle distance crds triplets cutoff_dist cutoff_angle = map ?row crds"
    unfolding hbond_mask_vectorized_def is_hbond_stack_rows take_cols_def Let_def
    by (rule nth_equalityI) simp_all
  have "hbond_mask_loop angle distance crds triplets cutoff_dist cutoff_angle =
          foldl (\<lambda>m frame. m[frame := ?row (crds ! frame)])
            (replicate (length crds) (replicate (length triplets) False)) [0..<length crds]"
    by (simp add: hbond_mask_loop_def Let_def)
  also have "\<dots> = map (\<lambda>frame. ?row (crds ! frame)) [0..<length crds] @
      drop (length crds) (replicate (length crds) (replicate (length triplets) False))"
    by (rule foldl_update_rows [where n = "length crds"]) simp_all
  also have "\<dots> = map ?row crds"
    by (rule nth_equalityI) simp_all
  finally show ?thesis
    using v by simp
qed


subsection \<open>Exchanging the selections\<close>

lemma hbond_priv_triplets_uninit:
  "map_sum id fst (hbond_priv angle distance u1 atoms ds as cd ca de ae v) =
   map_sum id fst (hbond_priv angle distance u2 atoms ds as cd ca de ae v)"
  by (simp add: hbond_priv_def Let_def split: sum.splits list.splits)

lemma np_where_all_False: "np_where (replicate n False) = []"
  by (simp add: np_where_def filter_empty_conv)

lemma np_and_all_False:
  "np_and (replicate (length xs) False) xs = Inr (replicate (length xs) False)"
  by (simp add: np_and_def list_eq_iff_nth_eq)

lemma hbond_priv_no_selection:
  assumes "coord atoms \<noteq> []"
  shows "hbond_priv angle distance u atoms (replicate (array_length atoms) False)
           (replicate (array_length atoms) False) cd ca de ae v =
         Inr ([], np_empty u (length (coord atoms)) 3)"
proof -
  have a: "np_and (replicate (array_length atoms) False) (np_isin (element atoms) els) =
             Inr (replicate (array_length atoms) False)" for els
    using np_and_all_False [of "np_isin (element atoms) els"]
    by (simp add: array_length_def np_isin_def)
  show ?thesis
    using assms
    by (simp add: hbond_priv_def a np_where_all_False get_bonded_hydrogen_def get_triplets_def
        split: list.splits)
qed


lemma build_donor:
  "build_donor_acceptor_selections atoms sel ''donor'' =
     (case sel of None \<Rightarrow> replicate (array_length atoms) True | Some s \<Rightarrow> s,
      replicate (array_length atoms) False)"
  by (simp add: build_donor_acceptor_selections_def)

lemma build_acceptor:
  "build_donor_acceptor_selections atoms sel ''acceptor'' =
     (replicate (array_length atoms) False,
      case sel of None \<Rightarrow> replicate (array_length atoms) True | Some s \<Rightarrow> s)"
  by (simp add: build_donor_acceptor_selections_def)

lemma hbond_priv_uninit_cases:
  "(hbond_priv angle distance u1 atoms ds as cd ca de ae v = Inl e \<longrightarrow>
      hbond_priv angle distance u2 atoms ds as cd ca de ae v = Inl e) \<and>
   (hbond_priv angle distance u1 atoms ds as cd ca de ae v = Inr (ts, m) \<longrightarrow>
      (\<exists>m'. hbond_priv angle distance u2 atoms ds as cd ca de ae v = Inr (ts, m')))"
  using hbond_priv_triplets_uninit [of angle distance u1 atoms ds as cd ca de ae v u2]
  by (cases "hbond_priv angle distance u1 atoms ds as cd ca de ae v";
      cases "hbond_priv angle distance u2 atoms ds as cd ca de ae v") auto

text \<open>
  C5. The type of the second selection is the opposite of the type of the first one. For
  selections A and B on atoms with at least one model, \<open>hbond\<close> with
  (selection1 = A, selection2 = B, selection1_type = donor) and \<open>hbond\<close> with
  (selection1 = B, selection2 = A, selection1_type = acceptor) return the same triplets,
  in the same order, or raise the same exception: both run the search from A as donors to
  B as acceptors and a search with empty selections.
\<close>

theorem hbond_selection_symmetry:
  assumes "coord (fst (as_stack atoms_in)) \<noteq> []"
  shows "selection2_type_of ''donor'' = Inr ''acceptor'' \<and>
         selection2_type_of ''acceptor'' = Inr ''donor'' \<and>
         map_sum id triplets_of
           (hbond angle distance uninit atoms_in A B ''donor'' cd ca de ae v) =
         map_sum id triplets_of
           (hbond angle distance uninit' atoms_in B A ''acceptor'' cd ca de ae v)"
proof -
  obtain atoms single_model where st: "as_stack atoms_in = (atoms, single_model)"
    by (cases "as_stack atoms_in")
  let ?F = "replicate (array_length atoms) False"
  let ?A = "case A of None \<Rightarrow> replicate (array_length atoms) True | Some s \<Rightarrow> s"
  let ?B = "case B of None \<Rightarrow> replicate (array_length atoms) True | Some s \<Rightarrow> s"
  let ?P = "\<lambda>u. hbond_priv angle distance u atoms ?A ?B cd ca de ae v"
  have ne: "coord atoms \<noteq> []"
    using assms st by simp
  have none: "hbond_priv angle distance u atoms ?F ?F cd ca de ae v =
                Inr ([], np_empty u (length (coord atoms)) 3)" for u
    by (rule hbond_priv_no_selection [OF ne])
  have ty: "selection2_type_of ''donor'' = Inr ''acceptor''"
    "selection2_type_of ''acceptor'' = Inr ''donor''"
    by (simp_all add: selection2_type_of_def)
  show ?thesis
  proof (cases "?A = ?F \<and> ?B = ?F")
    case True
    then have "?A = ?F" "?B = ?F" by simp_all
    then show ?thesis
      using hbond_priv_triplets_uninit [of angle distance "uninit 0" atoms ?F ?F cd ca de ae v "uninit' 0"]
      by (simp add: hbond_def st ty build_donor build_acceptor none)
  next
    case False
    then have c1: "\<not> (?A = ?F \<and> ?F = ?B)" and c2: "\<not> (?F = ?A \<and> ?B = ?F)"
      by auto
    show ?thesis
    proof (cases "?P (uninit 0)")
      case (Inl e)
      then have "?P (uninit' 1) = Inl e"
        using hbond_priv_uninit_cases [of angle distance "uninit 0" atoms ?A ?B cd ca de ae v e "uninit' 1"]
        by simp
      then show ?thesis
        using Inl c1 c2 by (simp add: hbond_def st ty build_donor build_acceptor none)
    next
      case (Inr r)
      obtain ts m where r: "r = (ts, m)" by (cases r)
      obtain m' where "?P (uninit' 1) = Inr (ts, m')"
        using hbond_priv_uninit_cases [of angle distance "uninit 0" atoms ?A ?B cd ca de ae v _ "uninit' 1" ts m] Inr r
        by auto
      then show ?thesis
        using Inr r c1 c2
        by (simp add: hbond_def st ty build_donor build_acceptor none Let_def split: prod.splits)
    qed
  qed
qed

lemmas hbond_eval =
  hbond_def hbond_priv_def get_triplets_def get_bonded_hydrogen_def np_and_def np_isin_def
  np_where_def bool_index_def take_cols_def any_axis0_def np_empty_def np_unique_def
  trunc_int_def hbond_mask_vectorized_def hbond_mask_loop_def selection2_type_of_def
  build_donor_acceptor_selections_def is_hbond_def is_hbond_stack_def angle_arr_def
  distance_arr_def angle_stack_def distance_stack_def deg2rad_def stack1_def
  array_length_def Let_def upt_conv_Cons

theorem hbond_selection_symmetry_witness:
  "hbond (\<lambda>p q r. pi) (\<lambda>p q. \<bar>fst p - fst q\<bar>) (\<lambda>k i j. False)
     (AtomArrayStack \<lparr>element = [''N'', ''H'', ''O''], res_id = [1, 1, 2],
        coord = [[(0, 0, 0), (1, 0, 0), (3, 0, 0)], [(0, 0, 0), (1, 0, 0), (10, 0, 0)]]\<rparr>)
     (Some [True, True, False]) (Some [False, False, True]) ''donor'' (5 / 2) 120
     [''O'', ''N'', ''S''] [''O'', ''N'', ''S''] True =
     Inr (TripletsMask [(0, 1, 2)] [[True], [False]]) \<and>
   map_sum id triplets_of
     (hbond (\<lambda>p q r. pi) (\<lambda>p q. \<bar>fst p - fst q\<bar>) (\<lambda>k i j. False)
        (AtomArrayStack \<lparr>element = [''N'', ''H'', ''O''], res_id = [1, 1, 2],
           coord = [[(0, 0, 0), (1, 0, 0), (3, 0, 0)], [(0, 0, 0), (1, 0, 0), (10, 0, 0)]]\<rparr>)
        (Some [False, False, True]) (Some [True, True, False]) ''acceptor'' (5 / 2) 120
        [''O'', ''N'', ''S''] [''O'', ''N'', ''S''] True) =
     Inr [(0, 1, 2)]"
proof -
  let ?atoms = "AtomArrayStack \<lparr>element = [''N'', ''H'', ''O''], res_id = [1, 1, 2],
        coord = [[(0, 0, 0), (1, 0, 0), (3, 0, 0)], [(0, 0, 0), (1, 0, 0), (10, 0, 0)]]\<rparr>"
  have ne: "coord (fst (as_stack ?atoms)) \<noteq> []"
    by simp
  have donor: "hbond (\<lambda>p q r. pi) (\<lambda>p q. \<bar>fst p - fst q\<bar>) (\<lambda>k i j. False) ?atoms
     (Some [True, True, False]) (Some [False, False, True]) ''donor'' (5 / 2) 120
     [''O'', ''N'', ''S''] [''O'', ''N'', ''S''] True =
     Inr (TripletsMask [(0, 1, 2)] [[True], [False]])"
    by (simp add: hbond_eval)
  from hbond_selection_symmetry [OF ne, of "\<lambda>p q r. pi" "\<lambda>p q. \<bar>fst p - fst q\<bar>"
      "\<lambda>k i j. False" "Some [True, True, False]" "Some [False, False, True]" "5 / 2" 120
      "[''O'', ''N'', ''S'']" "[''O'', ''N'', ''S'']" True "\<lambda>k i j. False"]
  show ?thesis
    unfolding donor by simp
qed

subsection \<open>Searches without a candidate triplet\<close>

lemma np_where_empty: "(\<And>i. i < length xs \<Longrightarrow> \<not> xs ! i) \<Longrightarrow> np_where xs = []"
  by (simp add: np_where_def filter_empty_conv)

lemma get_bonded_hydrogen_none:
  assumes "''H'' \<notin> set el"
  shows "get_bonded_hydrogen distance el rid crd donor_mask cutoff =
           map (\<lambda>donor. []) (np_where donor_mask)"
proof -
  have h: "el ! i \<noteq> ''H''" if "i < length el" for i
    using assms that nth_mem [of i el] by metis
  show ?thesis
    unfolding get_bonded_hydrogen_def Let_def
    by (rule map_cong [OF refl], rule np_where_empty) (simp add: h)
qed

lemma get_triplets_no_hydrogen:
  "get_triplets donor_i (map (\<lambda>donor. []) xs) acceptor_i = Inr []"
proof -
  have d: "length (concat (map (\<lambda>(d, hs). map (\<lambda>h. (d, h)) hs)
             (zip donor_i (map (\<lambda>donor. []) xs)))) = 0"
    by (auto simp: set_zip)
  show ?thesis
    unfolding get_triplets_def Let_def by (simp only: d if_True HOL.simp_thms)
qed

text \<open>
  On a stack without any hydrogen atom, \<open>hbond\<close> with its default selections finds no
  candidate and returns the uninitialised M x 3 array as the mask.
\<close>

lemma hbond_no_hydrogen:
  assumes "''H'' \<notin> set (element s)" and "coord s \<noteq> []"
  shows "hbond angle distance uninit (AtomArrayStack s) None None ''both'' cutoff_dist
           cutoff_angle donor_elements acceptor_elements vectorized =
         Inr (TripletsMask [] (np_empty (uninit 0) (length (coord s)) 3))"
proof -
  let ?all = "replicate (array_length s) True"
  have priv: "hbond_priv angle distance u s ?all ?all cutoff_dist cutoff_angle donor_elements
                acceptor_elements vectorized =
              Inr ([], np_empty u (length (coord s)) 3)" for u
    using assms(2)
    by (simp add: hbond_priv_def np_and_def np_isin_def array_length_def
        get_bonded_hydrogen_none [OF assms(1)] get_triplets_no_hydrogen split: list.splits)
  show ?thesis
    by (simp add: hbond_def selection2_type_of_def build_donor_acceptor_selections_def priv
        Let_def)
qed

lemma np_where_snoc:
  "np_where (bs @ [b]) = np_where bs @ (if b then [length bs] else [])"
proof -
  have "filter (\<lambda>i. (bs @ [b]) ! i) [0..<length bs] = filter (\<lambda>i. bs ! i) [0..<length bs]"
    by (rule filter_cong) (auto simp: nth_append)
  then show ?thesis
    by (simp add: np_where_def)
qed

lemma np_where_bound: "i \<in> set (np_where bs) \<Longrightarrow> i < length bs \<and> bs ! i"
  by (simp add: np_where_def)

lemma bool_index_np_where:
  "length xs = length bs \<Longrightarrow> bool_index xs bs = map (\<lambda>i. xs ! i) (np_where bs)"
proof (induction bs arbitrary: xs rule: rev_induct)
  case Nil
  then show ?case by (simp add: bool_index_def np_where_def)
next
  case (snoc b bs)
  then obtain xs' x where xs: "xs = xs' @ [x]" and len: "length xs' = length bs"
    by (cases xs rule: rev_cases) auto
  have "bool_index xs (bs @ [b]) = bool_index xs' bs @ (if b then [x] else [])"
    using len by (simp add: bool_index_def xs)
  also have "bool_index xs' bs = map (\<lambda>i. xs' ! i) (np_where bs)"
    by (rule snoc.IH [OF len])
  also have "\<dots> = map (\<lambda>i. xs ! i) (np_where bs)"
    using len by (auto simp: xs nth_append dest: np_where_bound)
  finally show ?case
    using len by (simp add: np_where_snoc xs nth_append)
qed

lemma any_axis0_nth:
  "p < T \<Longrightarrow> any_axis0 m T ! p \<longleftrightarrow> (\<exists>row \<in> set m. row ! p)"
  by (simp add: any_axis0_def list_ex_iff)

lemma hbond_mask_loop_rows:
  "length (hbond_mask_loop angle distance crds triplets cd ca) = length crds \<and>
   (\<forall>row \<in> set (hbond_mask_loop angle distance crds triplets cd ca). length row = length triplets)"
proof -
  have "hbond_mask_loop angle distance crds triplets cd ca =
          hbond_mask_vectorized angle distance crds triplets cd ca"
    by (rule hbond_mask_strategies [symmetric])
  also have "\<dots> = map (\<lambda>(d, h, a). is_hbond angle distance d h a cd ca)
      (zip (take_cols crds (map fst triplets))
        (zip (take_cols crds (map (\<lambda>t. fst (snd t)) triplets))
           (take_cols crds (map (\<lambda>t. snd (snd t)) triplets))))"
    by (simp add: hbond_mask_vectorized_def Let_def is_hbond_stack_rows)
  finally show ?thesis
    by (auto simp: take_cols_def set_zip length_is_hbond)
qed

text \<open>
  The result of one directional search: without candidates it is the uninitialised
  M x 3 array; with candidates the mask has one row for each model and one column for
  each returned triplet, and every column has a true entry.
\<close>

lemma hbond_priv_columns:
  assumes "hbond_priv angle distance uninit atoms donor_selection acceptor_selection
             cutoff_dist cutoff_angle donor_elements acceptor_elements vectorized = Inr (ts, m)"
  shows "(ts = [] \<and> m = np_empty uninit (length (coord atoms)) 3) \<or>
         (length m = length (coord atoms) \<and>
          (\<forall>row \<in> set m. length row = length ts) \<and>
          (\<forall>t < length ts. \<exists>row \<in> set m. row ! t))"
proof -
  obtain ds where ds: "np_and donor_selection (np_isin (element atoms) donor_elements) = Inr ds"
    using assms by (auto simp: hbond_priv_def split: sum.splits)
  obtain as where as: "np_and acceptor_selection (np_isin (element atoms) acceptor_elements) = Inr as"
    using assms ds by (auto simp: hbond_priv_def split: sum.splits)
  obtain crd0 rest where c: "coord atoms = crd0 # rest"
    using assms ds as by (auto simp: hbond_priv_def Let_def split: list.splits)
  obtain cands where g: "get_triplets (np_where ds)
      (get_bonded_hydrogen distance (element atoms) (res_id atoms) crd0 ds (3 / 2))
      (np_where as) = Inr cands"
    using assms ds as c by (auto simp: hbond_priv_def Let_def split: sum.splits)
  have res: "(ts, m) =
      (if length cands = 0 then (cands, np_empty uninit (length (coord atoms)) 3)
       else let hbond_mask = hbond_mask_loop angle distance (coord atoms) cands cutoff_dist cutoff_angle;
                is_counted = any_axis0 hbond_mask (length cands)
            in (bool_index cands is_counted, map (\<lambda>row. bool_index row is_counted) hbond_mask))"
    using assms ds as c g
    by (simp add: hbond_priv_def Let_def hbond_mask_strategies split: if_splits)
  show ?thesis
  proof (cases "length cands = 0")
    case True
    then show ?thesis using res by simp
  next
    case False
    let ?hm = "hbond_mask_loop angle distance (coord atoms) cands cutoff_dist cutoff_angle"
    let ?cnt = "any_axis0 ?hm (length cands)"
    note rows = hbond_mask_loop_rows [of angle distance "coord atoms" cands cutoff_dist cutoff_angle]
    have ts: "ts = bool_index cands ?cnt" and m: "m = map (\<lambda>row. bool_index row ?cnt) ?hm"
      using res False by (simp_all add: Let_def)
    have cl: "length ?cnt = length cands"
      by (simp add: any_axis0_def)
    have tsl: "length ts = length (np_where ?cnt)"
      by (simp add: ts bool_index_np_where cl)
    have rowl: "length (bool_index row ?cnt) = length ts" if "row \<in> set ?hm" for row
      using rows that by (simp add: tsl bool_index_np_where cl)
    have col: "\<exists>row \<in> set m. row ! t" if "t < length ts" for t
    proof -
      let ?p = "np_where ?cnt ! t"
      have "?p \<in> set (np_where ?cnt)"
        using that tsl by simp
      then have p: "?p < length cands" "?cnt ! ?p"
        using np_where_bound [of ?p ?cnt] cl by simp_all
      then obtain row where row: "row \<in> set ?hm" "row ! ?p"
        using any_axis0_nth [of ?p "length cands" ?hm] by auto
      have "bool_index row ?cnt ! t = row ! ?p"
        using rows row(1) that tsl by (simp add: bool_index_np_where cl)
      then show ?thesis
        using row by (auto simp: m)
    qed
    show ?thesis
      using rows rowl col by (auto simp: m)
  qed
qed

text \<open>
  C1. When no hydrogen bond is found, the claim asks for an empty M x 0 mask. On a stack
  of two models of a nitrogen and an oxygen atom, without any hydrogen, no donor has a
  hydrogen, \<open>_get_triplets\<close> returns no candidate, and \<open>_hbond\<close> returns
  \<open>np.empty((len(atoms), 3))\<close>: the mask that \<open>hbond\<close> returns has two rows of three
  uninitialised entries, next to an empty list of triplets.
\<close>

theorem hbond_no_candidate_mask_shape:
  "hbond angle distance uninit
     (AtomArrayStack \<lparr>element = [''N'', ''O''], res_id = [1, 2],
        coord = [[(0, 0, 0), (3, 0, 0)], [(0, 0, 0), (4, 0, 0)]]\<rparr>)
     None None ''both'' (5 / 2) 120 [''O'', ''N'', ''S''] [''O'', ''N'', ''S''] True =
   Inr (TripletsMask []
     [[uninit 0 0 0, uninit 0 0 1, uninit 0 0 2], [uninit 0 1 0, uninit 0 1 1, uninit 0 1 2]])"
  by (simp add: hbond_eval numeral_2_eq_2)

text \<open>
  C3. The claim asks for a true entry in every column of the returned mask. With
  selection1 (the oxygen) as acceptor and selection2 (the nitrogen and its hydrogen) as
  donor, the first search has no candidate and returns three uninitialised columns, the
  second one finds the triplet (0, 1, 2), present in the first model only. The columns
  of the two masks are concatenated, and \<open>mask[:, unique_indices]\<close> takes column 0 of the
  result for the only triplet: an uninitialised column. When the memory holds zeros, the
  returned triplet has a column without any true entry. The atoms lie on the x axis, the
  hydrogen between donor and acceptor: the angle is \<open>pi\<close> and the distance is the
  difference of the x coordinates.
\<close>

theorem hbond_acceptor_mask_column:
  "hbond (\<lambda>p q r. pi) (\<lambda>p q. \<bar>fst p - fst q\<bar>) (\<lambda>k i j. False)
     (AtomArrayStack \<lparr>element = [''N'', ''H'', ''O''], res_id = [1, 1, 2],
        coord = [[(0, 0, 0), (1, 0, 0), (3, 0, 0)], [(0, 0, 0), (1, 0, 0), (10, 0, 0)]]\<rparr>)
     (Some [False, False, True]) (Some [True, True, False]) ''acceptor'' (5 / 2) 120
     [''O'', ''N'', ''S''] [''O'', ''N'', ''S''] True =
   Inr (TripletsMask [(0, 1, 2)] [[False], [False]])"
  by (simp add: hbond_eval)

section \<open>Properties of the PDBx file\<close>

lemmas pdbx_eval =
  read_def read_line_def is_empty_def data_block_name_def is_loop_start_def is_multi_def
  get_category_name_def add_category_def startswith_def py_slice_def slice_bound_def
  strip_def is_space_def new_file_def get_block_names_def get_category_def default_block_def
  process_looped_def process_looped_line_def plain_split_def Let_def

subsection \<open>Looped categories\<close>

text \<open>The example of the specification: two keys and six tokens give three rows.\<close>

lemma process_looped_example:
  "process_looped plain_split [''_c.a'', ''_c.b'', ''a1 b1'', ''a2 b2'', ''a3 b3''] =
     Inr [(''a'', [PyStr ''a1'', PyStr ''a2'', PyStr ''a3'']),
          (''b'', [PyStr ''b1'', PyStr ''b2'', PyStr ''b3''])]"
  by (simp add: pdbx_eval)

text \<open>
  C7. The claim asks for the column-major assignment of the tokens for every looped
  category. \<open>_process_looped\<close> allocates arrays of \<open>len(lines)\<close> entries ("Pessimistic
  array allocation"), where \<open>lines\<close> holds the key lines and the value lines of the
  category; a category with more rows than lines overruns them. The file below has a loop
  with one key and one line of three values: it is parsed, and \<open>get_category\<close> raises
  \<open>IndexError\<close> when it writes the third row into an array of two entries.
\<close>

theorem get_category_loop_overrun:
  "read new_file (''data_x'' @ [CHR 0x0A] @ ''loop_'' @ [CHR 0x0A] @ ''_c.a'' @ [CHR 0x0A] @
       ''x y z'' @ [CHR 0x0A]) =
     Inr \<lparr>lines = [''data_x'', ''loop_'', ''_c.a'', ''x y z''],
          categories = [((''x'', ''c''), \<lparr>start = 1, stop = 4, loop = True, multiline = False\<rparr>)]\<rparr> \<and>
   get_category plain_split
     \<lparr>lines = [''data_x'', ''loop_'', ''_c.a'', ''x y z''],
      categories = [((''x'', ''c''), \<lparr>start = 1, stop = 4, loop = True, multiline = False\<rparr>)]\<rparr>
     ''c'' None = Inl IndexError"
  by (simp add: pdbx_eval)

subsection \<open>Data blocks\<close>

text \<open>
  C9. The claim asks that the category that is open when a new data block begins is
  recorded under the previous block. In \<open>read\<close> a line that starts with \<open>data_\<close> sets
  \<open>current_category = None\<close> without any call of \<open>_add_category\<close>, so the last
  category of every data block but the last one is lost: the file below has the category
  \<open>c\<close> in block \<open>a\<close> and the category \<open>d\<close> in block \<open>b\<close>, its index holds \<open>(b, d)\<close>
  only, and \<open>get_category\<close> of \<open>c\<close> in block \<open>a\<close> raises \<open>KeyError\<close>.
\<close>

theorem read_loses_last_category_of_block:
  "read new_file (''data_a'' @ [CHR 0x0A] @ ''_c.k v'' @ [CHR 0x0A] @ ''data_b'' @ [CHR 0x0A] @
       ''_d.k w'' @ [CHR 0x0A]) =
     Inr \<lparr>lines = [''data_a'', ''_c.k v'', ''data_b'', ''_d.k w''],
          categories = [((''b'', ''d''), \<lparr>start = 3, stop = 4, loop = False, multiline = False\<rparr>)]\<rparr> \<and>
   get_category split
     \<lparr>lines = [''data_a'', ''_c.k v'', ''data_b'', ''_d.k w''],
      categories = [((''b'', ''d''), \<lparr>start = 3, stop = 4, loop = False, multiline = False\<rparr>)]\<rparr>
     ''c'' (Some ''a'') = Inl KeyError"
  by (simp add: pdbx_eval)

subsection \<open>The index after reading\<close>

lemma wf_map_mono: "wf_map n m \<Longrightarrow> n \<le> n' \<Longrightarrow> wf_map n' m"
  unfolding wf_map_def by (meson order_trans)

lemma wf_map_add:
  assumes wf: "wf_map n m"
    and new: "0 \<le> a" "a < b" "b \<le> n"
    and sb: "stops_bound m (Some blk) a"
  shows "wf_map n (m((blk, name) \<mapsto> \<lparr>start = a, stop = b, loop = l, multiline = ml\<rparr>))"
proof -
  have R: "0 \<le> start i \<and> start i < stop i \<and> stop i \<le> n" if "m k = Some i" for k i
    using wf that unfolding wf_map_def by blast
  have P: "(stop i1 \<le> start i2 \<or> stop i2 \<le> start i1) \<and> (fst k1 \<noteq> fst k2 \<longrightarrow> stop i1 \<noteq> start i2)"
    if "m k1 = Some i1" "m k2 = Some i2" "k1 \<noteq> k2" for k1 i1 k2 i2
    using wf that unfolding wf_map_def by blast
  have S: "stop i \<le> a \<and> (fst k \<noteq> blk \<longrightarrow> stop i < a)" if "m k = Some i" for k i
    using sb that unfolding stops_bound_def by (cases k) auto
  show ?thesis
    unfolding wf_map_def
  proof (intro conjI allI impI)
    fix k i
    assume "(m((blk, name) \<mapsto> \<lparr>start = a, stop = b, loop = l, multiline = ml\<rparr>)) k = Some i"
    then show "0 \<le> start i" "start i < stop i" "stop i \<le> n"
      using new R [of k i] by (auto split: if_splits)
  next
    fix k1 i1 k2 i2
    assume a: "(m((blk, name) \<mapsto> \<lparr>start = a, stop = b, loop = l, multiline = ml\<rparr>)) k1 = Some i1 \<and>
       (m((blk, name) \<mapsto> \<lparr>start = a, stop = b, loop = l, multiline = ml\<rparr>)) k2 = Some i2 \<and> k1 \<noteq> k2"
    then show "stop i1 \<le> start i2 \<or> stop i2 \<le> start i1"
      using new P [of k1 i1 k2 i2] S [of k1 i1] S [of k2 i2] by (auto split: if_splits)
    show "stop i1 \<noteq> start i2" if "fst k1 \<noteq> fst k2"
      using a that new P [of k1 i1 k2 i2] S [of k1 i1] S [of k2 i2] R [of k1 i1] R [of k2 i2]
      by (auto split: if_splits)
  qed
qed


lemma stops_boundI:
  "(\<And>k info. m k = Some info \<Longrightarrow> stop info \<le> c \<and> (Some (fst k) \<noteq> blk \<longrightarrow> stop info < c)) \<Longrightarrow>
     stops_bound m blk c"
  unfolding stops_bound_def by blast

lemma stops_boundD:
  "stops_bound m blk c \<Longrightarrow> m k = Some info \<Longrightarrow>
     stop info \<le> c \<and> (Some (fst k) \<noteq> blk \<longrightarrow> stop info < c)"
  unfolding stops_bound_def by blast

text \<open>Closing the open category at line \<open>i\<close>.\<close>

lemma close_category:
  fixes cs :: "((string \<times> string) \<times> category_info) list" and l ml :: bool
  assumes inv: "distinct (map fst cs)" "wf_map (int i) (map_of cs)"
    and opn: "name \<noteq> None \<longrightarrow> 0 \<le> a \<and> a < int i \<and> stops_bound (map_of cs) (Some blk) a"
    and cls: "name = None \<longrightarrow> (\<forall>k info. map_of cs k = Some info \<longrightarrow> stop info < int i)"
    and cs': "cs' = add_category cs blk name a (int i) l ml"
  shows "distinct (map fst cs')"
    and "wf_map (int i) (map_of cs')"
    and "stops_bound (map_of cs') (Some blk) (int i)"
proof -
  show "distinct (map fst cs')"
    using inv(1) by (cases name) (simp_all add: cs' add_category_def distinct_update)
  show "wf_map (int i) (map_of cs')"
  proof (cases name)
    case None
    then show ?thesis using inv(2) by (simp add: cs' add_category_def)
  next
    case (Some c)
    then show ?thesis
      using wf_map_add [OF inv(2), of a "int i" blk c l ml] opn
      by (simp add: cs' add_category_def update_conv')
  qed
  show "stops_bound (map_of cs') (Some blk) (int i)"
  proof (cases name)
    case None
    then have "stop info < int i" if "map_of cs' k = Some info" for k info
      using cls that by (simp add: cs' add_category_def del: split_paired_All)
    then show ?thesis
      by (intro stops_boundI) force
  next
    case (Some c)
    show ?thesis
    proof (rule stops_boundI)
      fix k info
      assume "map_of cs' k = Some info"
      then consider "k = (blk, c)" "stop info = int i"
        | "map_of cs k = Some info"
        by (auto simp: cs' add_category_def Some update_conv' split: if_splits)
      then show "stop info \<le> int i \<and> (Some (fst k) \<noteq> Some blk \<longrightarrow> stop info < int i)"
      proof cases
        case 1
        then show ?thesis by simp
      next
        case 2
        have "stops_bound (map_of cs) (Some blk) a" "a < int i"
          using opn Some by simp_all
        from stops_boundD [OF this(1) 2] this(2) show ?thesis by force
      qed
    qed
  qed
qed


lemma data_block_line:
  assumes "data_block_name line = Some name"
  shows "\<not> is_loop_start line" and "get_category_name line = Inr None"
proof -
  have "startswith line ''data_''"
    using assms by (simp add: data_block_name_def split: if_splits)
  then obtain rest where "line = CHR ''d'' # rest"
    by (cases line) (auto simp: startswith_def)
  then show "\<not> is_loop_start line" and "get_category_name line = Inr None"
    by (simp_all add: is_loop_start_def startswith_def get_category_name_def)
qed

lemma parse_wf_Suc:
  assumes "parse_wf i st"
  shows "parse_wf (Suc i) st"
proof -
  have w: "wf_map (int (Suc i)) (map_of (cats st))"
    using assms by (auto simp: parse_wf_def intro: wf_map_mono)
  show ?thesis
  proof (cases "current_category st")
    case None
    then have a: "\<forall>k info. map_of (cats st) k = Some info \<longrightarrow> stop info < int i"
      using assms by (simp add: parse_wf_def del: split_paired_All)
    have "stop info < int (Suc i)" if "map_of (cats st) k = Some info" for k info
      using a [rule_format, OF that] by simp
    then show ?thesis
      using assms w None by (simp add: parse_wf_def del: split_paired_All)
  next
    case (Some c)
    then show ?thesis
      using assms w by (simp add: parse_wf_def)
  qed
qed

lemma parse_wf_flag:
  "parse_wf i st \<Longrightarrow> parse_wf i (st\<lparr>has_multiline_values := b\<rparr>)"
  by (cases "current_category st") (simp_all add: parse_wf_def)

lemma read_line_wf:
  assumes inv: "parse_wf i st" and res: "read_line i line rest st = Inr st'"
  shows "parse_wf (Suc i) st'"
proof (cases "data_block_name line")
  case (Some name)
  let ?st1 = "st\<lparr>data_block := Some name, current_category := None, cur_start := - 1,
                        cur_stop := - 1, cur_is_loop := False, has_multiline_values := False\<rparr>"
  note dl = data_block_line [OF Some]
  have "st' = ?st1 \<or> st' = ?st1\<lparr>has_multiline_values := True\<rparr>"
    using res Some dl by (auto simp: read_line_def Let_def split: sum.splits if_splits)
  moreover have "parse_wf (Suc i) ?st1"
  proof -
    have "stop info < int (Suc i)" if "map_of (cats st) k = Some info" for k info
      using inv that unfolding parse_wf_def wf_map_def by fastforce
    then show ?thesis
      using inv by (auto simp: parse_wf_def intro: wf_map_mono simp del: split_paired_All)
  qed
  ultimately show ?thesis
    using parse_wf_flag [of "Suc i" ?st1 True] by auto
next
  case None
  obtain category_in_line where cil: "get_category_name line = Inr category_in_line"
    using res by (auto simp: read_line_def Let_def split: sum.splits)
  show ?thesis
  proof (cases "is_loop_start line \<or>
      (category_in_line \<noteq> current_category st \<and> category_in_line \<noteq> None)")
    case False
    then have "st' = st \<or> st' = st\<lparr>has_multiline_values := True\<rparr>"
      using res None cil by (auto simp: read_line_def Let_def split: sum.splits if_splits)
    then show ?thesis
      using parse_wf_Suc [OF inv] parse_wf_flag [of "Suc i" st True] by auto
  next
    case True
    obtain block where b: "data_block st = Some block"
      using res None cil True by (auto simp: read_line_def Let_def split: option.splits)
    let ?cs = "add_category (cats st) block (current_category st) (cur_start st) (int i)
                 (cur_is_loop st) (has_multiline_values st)"
    obtain category where cat:
      "(if is_loop_start line
        then (case rest of [] \<Rightarrow> Inl IndexError | next_line # _ \<Rightarrow> get_category_name next_line)
        else Inr category_in_line) = Inr category"
      using res None cil True b
      by (auto simp: read_line_def Let_def split: sum.splits)
    let ?st2 = "st\<lparr>cats := ?cs, cur_stop := int i, cur_is_loop := is_loop_start line,
                      current_category := category, cur_start := int i,
                      has_multiline_values := False\<rparr>"
    obtain multi where "is_multi line (is_loop_start line) = Inr multi"
      using res None cil True b cat
      by (auto simp: read_line_def Let_def split: sum.splits)
    then have st2: "st' = ?st2 \<or> st' = ?st2\<lparr>has_multiline_values := True\<rparr>"
      using res None cil True b cat
      by (auto simp: read_line_def Let_def)
    have d: "distinct (map fst (cats st))" and w: "wf_map (int i) (map_of (cats st))"
      using inv by (simp_all add: parse_wf_def)
    have opn: "current_category st \<noteq> None \<longrightarrow>
        0 \<le> cur_start st \<and> cur_start st < int i \<and>
        stops_bound (map_of (cats st)) (Some block) (cur_start st)"
      using inv b by (auto simp: parse_wf_def)
    have cls: "current_category st = None \<longrightarrow>
        (\<forall>k info. map_of (cats st) k = Some info \<longrightarrow> stop info < int i)"
      using inv by (auto simp: parse_wf_def)
    note cc = close_category [OF d w opn cls refl, of "cur_is_loop st" "has_multiline_values st"]
    have "parse_wf (Suc i) ?st2"
    proof (cases category)
      case None
      have "stop info < int (Suc i)" if "map_of ?cs k = Some info" for k info
        using stops_boundD [OF cc(3) that] by simp
      then show ?thesis
        using cc(1) wf_map_mono [OF cc(2), of "int (Suc i)"] None
        by (simp add: parse_wf_def)
    next
      case (Some c)
      then show ?thesis
        using cc(1) wf_map_mono [OF cc(2), of "int (Suc i)"] cc(3) b
        by (simp add: parse_wf_def)
    qed
    then show ?thesis
      using st2 parse_wf_flag [of "Suc i" ?st2 True] by auto
  qed
qed

lemma read_lines_wf:
  "parse_wf i st \<Longrightarrow> read_lines i ls st = Inr st' \<Longrightarrow> parse_wf (i + length ls) st'"
proof (induction ls arbitrary: i st)
  case Nil
  then show ?case by simp
next
  case (Cons l ls)
  show ?case
  proof (cases "is_empty l")
    case True
    then show ?thesis
      using Cons.IH [of "Suc i" st] Cons.prems parse_wf_Suc [of i st] by simp
  next
    case False
    then obtain st1 where st1: "read_line i l ls st = Inr st1" "read_lines (Suc i) ls st1 = Inr st'"
      using Cons.prems(2) by (auto split: sum.splits)
    from read_line_wf [OF Cons.prems(1) st1(1)] Cons.IH [of "Suc i" st1] st1(2)
    show ?thesis by simp
  qed
qed

text \<open>
  After \<open>read\<close> on a file without categories, as \<open>PDBxFile()\<close> makes it, the index is
  well formed, and so it fits the lines.
\<close>

lemma read_index_wf:
  assumes "categories self = []" and "read self str_data = Inr f"
  shows "index_wf f"
proof -
  let ?all = "split_char CHR 0x0A str_data"
  let ?ls = "if last ?all = [] then butlast ?all else ?all"
  let ?st0 = "\<lparr>data_block = None, current_category = None, cur_start = - 1, cur_stop = - 1,
                 cur_is_loop = False, has_multiline_values = False, cats = categories self\<rparr>"
  obtain st block where st: "read_lines 0 ?ls ?st0 = Inr st" "data_block st = Some block"
    and f: "f = \<lparr>lines = ?ls, categories = add_category (cats st) block (current_category st)
                         (cur_start st) (int (length ?ls)) (cur_is_loop st)
                         (has_multiline_values st)\<rparr>"
    using assms(2) by (auto simp: read_def Let_def split: sum.splits option.splits)
  have "parse_wf 0 ?st0"
    using assms(1) by (simp add: parse_wf_def wf_map_def)
  from read_lines_wf [OF this st(1)] have inv: "parse_wf (length ?ls) st"
    by simp
  have d: "distinct (map fst (cats st))" and w: "wf_map (int (length ?ls)) (map_of (cats st))"
    using inv by (simp_all add: parse_wf_def)
  have opn: "current_category st \<noteq> None \<longrightarrow>
      0 \<le> cur_start st \<and> cur_start st < int (length ?ls) \<and>
      stops_bound (map_of (cats st)) (Some block) (cur_start st)"
    using inv st(2) by (auto simp: parse_wf_def)
  have cls: "current_category st = None \<longrightarrow>
      (\<forall>k info. map_of (cats st) k = Some info \<longrightarrow> stop info < int (length ?ls))"
    using inv by (auto simp: parse_wf_def)
  note cc = close_category [OF d w opn cls refl, of "cur_is_loop st" "has_multiline_values st"]
  show ?thesis
    using cc(1,2) by (simp add: index_wf_def f)
qed

lemma index_wf_ok: "index_wf self \<Longrightarrow> index_ok self"
  unfolding index_wf_def index_ok_def wf_map_def list_all_iff range_ok_def
  by (auto simp: map_of_eq_Some_iff) force+

subsection \<open>Writing a category\<close>

lemma map_of_shift_after:
  "map_of (shift_after c d cs) key =
     map_option (\<lambda>info. if start info > c
                          then info\<lparr>start := start info + d, stop := stop info + d\<rparr> else info)
       (map_of cs key)"
  by (induction cs) (auto simp: shift_after_def)


lemma length_py_insert: "length (py_insert xs a new) = length xs + length new"
  by (simp add: py_insert_def Let_def)

lemma length_py_del_slice:
  "0 \<le> a \<Longrightarrow> a \<le> b \<Longrightarrow> b \<le> int (length xs) \<Longrightarrow>
     int (length (py_del_slice xs a b)) = int (length xs) - (b - a)"
  by (auto simp: py_del_slice_def slice_bound_def Let_def min_def max_def)

lemma foldl_max_stop_ge:
  "acc \<le> foldl (\<lambda>last_stop (category_tuple, info).
              if last_stop < stop info then stop info else last_stop) acc cs \<and>
   (\<forall>(k, info) \<in> set cs. stop info \<le> foldl (\<lambda>last_stop (category_tuple, info).
              if last_stop < stop info then stop info else last_stop) acc cs)"
proof (induction cs arbitrary: acc)
  case Nil
  then show ?case by simp
next
  case (Cons c cs)
  obtain k info where c: "c = (k, info)" by (cases c)
  let ?acc = "if acc < stop info then stop info else acc"
  from Cons.IH [of ?acc] show ?case
    by (auto simp: c)
qed

lemma last_stop_all_ge:
  "map_of (categories self) key = Some info \<Longrightarrow> stop info \<le> last_stop_all self"
  using foldl_max_stop_ge [of 0 "categories self"] map_of_SomeD [of "categories self" key info]
  by (auto simp: last_stop_all_def)





subsection \<open>The index after writing\<close>

lemma wf_edit:
  assumes wf: "wf_map len m"
    and m': "\<And>k. m' k = (if k = key then Some N else map_option (shifted c d) (m k))"
    and N: "start N = c" "stop N = c + n" "0 < n" "0 \<le> c" "c + n \<le> len'"
    and left: "\<And>k i. m k = Some i \<Longrightarrow> k \<noteq> key \<Longrightarrow> start i \<le> c \<Longrightarrow>
                 stop i \<le> c \<and> (fst k \<noteq> fst key \<longrightarrow> stop i < c)"
    and right: "\<And>k i. m k = Some i \<Longrightarrow> k \<noteq> key \<Longrightarrow> start i > c \<Longrightarrow>
                 c + n \<le> start i + d \<and> (fst k \<noteq> fst key \<longrightarrow> c + n < start i + d) \<and>
                 stop i + d \<le> len'"
  shows "wf_map len' m'"
proof -
  define kind where "kind k j \<longleftrightarrow>
      (k = key \<and> j = N) \<or>
      (k \<noteq> key \<and> (\<exists>i. m k = Some i \<and>
         ((start i \<le> c \<and> j = i \<and> stop i \<le> c \<and> (fst k \<noteq> fst key \<longrightarrow> stop i < c)) \<or>
          (start i > c \<and> start j = start i + d \<and> stop j = stop i + d \<and>
           c + n \<le> start j \<and> (fst k \<noteq> fst key \<longrightarrow> c + n < start j) \<and> stop j \<le> len'))))"
    for k j
  have kinds: "kind k j" if mk: "m' k = Some j" for k j
  proof (cases "k = key")
    case True
    then show ?thesis using mk m' by (simp add: kind_def)
  next
    case False
    then obtain i where i: "m k = Some i" "j = shifted c d i"
      using mk m' [of k] by auto
    show ?thesis
    proof (cases "start i > c")
      case True
      then show ?thesis
        using right [OF i(1) False True] False i by (auto simp: kind_def shifted_def)
    next
      case le: False
      then have "start i \<le> c" by simp
      from left [OF i(1) False this] show ?thesis
        using False i le by (auto simp: kind_def shifted_def)
    qed
  qed
  have R: "0 \<le> start i \<and> start i < stop i \<and> stop i \<le> len" if "m k = Some i" for k i
    using wf that unfolding wf_map_def by blast
  have P: "(stop i1 \<le> start i2 \<or> stop i2 \<le> start i1) \<and> (fst k1 \<noteq> fst k2 \<longrightarrow> stop i1 \<noteq> start i2)"
    if "m k1 = Some i1" "m k2 = Some i2" "k1 \<noteq> k2" for k1 i1 k2 i2
    using wf that unfolding wf_map_def by blast
  have one: "0 \<le> start j1 \<and> start j1 < stop j1 \<and> stop j1 \<le> len'" if mk: "m' k1 = Some j1" for k1 j1
  proof -
    consider (n1) "k1 = key" "j1 = N"
      | (l1) i1 where "k1 \<noteq> key" "m k1 = Some i1" "j1 = i1" "start i1 \<le> c" "stop i1 \<le> c" "fst k1 \<noteq> fst key \<longrightarrow> stop i1 < c"
      | (r1) i1 where "k1 \<noteq> key" "m k1 = Some i1" "c < start i1" "start j1 = start i1 + d" "stop j1 = stop i1 + d" "c + n \<le> start j1" "fst k1 \<noteq> fst key \<longrightarrow> c + n < start j1" "stop j1 \<le> len'"
      using kinds [OF mk] unfolding kind_def by blast
    then show ?thesis
    proof cases
      case n1
      then show ?thesis using N by simp
    next
      case l1
      then show ?thesis using N R [OF l1(2)] by simp
    next
      case r1
      then show ?thesis using N R [OF r1(2)] by simp
    qed
  qed
  have two: "(stop j1 \<le> start j2 \<or> stop j2 \<le> start j1) \<and>
             (fst k1 \<noteq> fst k2 \<longrightarrow> stop j1 \<noteq> start j2)"
    if mk1: "m' k1 = Some j1" and mk2: "m' k2 = Some j2" and ne: "k1 \<noteq> k2" for k1 j1 k2 j2
  proof -
    note r1 = one [OF mk1] and r2 = one [OF mk2]
    consider (n1) "k1 = key" "j1 = N"
      | (l1) i1 where "k1 \<noteq> key" "m k1 = Some i1" "j1 = i1" "start i1 \<le> c" "stop i1 \<le> c" "fst k1 \<noteq> fst key \<longrightarrow> stop i1 < c"
      | (r1) i1 where "k1 \<noteq> key" "m k1 = Some i1" "c < start i1" "start j1 = start i1 + d" "stop j1 = stop i1 + d" "c + n \<le> start j1" "fst k1 \<noteq> fst key \<longrightarrow> c + n < start j1" "stop j1 \<le> len'"
      using kinds [OF mk1] unfolding kind_def by blast
    note c1 = this
    consider (n2) "k2 = key" "j2 = N"
      | (l2) i2 where "k2 \<noteq> key" "m k2 = Some i2" "j2 = i2" "start i2 \<le> c" "stop i2 \<le> c" "fst k2 \<noteq> fst key \<longrightarrow> stop i2 < c"
      | (r2) i2 where "k2 \<noteq> key" "m k2 = Some i2" "c < start i2" "start j2 = start i2 + d" "stop j2 = stop i2 + d" "c + n \<le> start j2" "fst k2 \<noteq> fst key \<longrightarrow> c + n < start j2" "stop j2 \<le> len'"
      using kinds [OF mk2] unfolding kind_def by blast
    note c2 = this
    show ?thesis
    proof (rule c1; rule c2)
      assume a: "k1 = key" "j1 = N"
        and b: "k2 = key" "j2 = N"
      show ?thesis using a b ne by simp
    next
      fix i2
      assume a: "k1 = key" "j1 = N"
        and b: "k2 \<noteq> key" "m k2 = Some i2" "j2 = i2" "start i2 \<le> c" "stop i2 \<le> c" "fst k2 \<noteq> fst key \<longrightarrow> stop i2 < c"
      show ?thesis using a b N r1 r2 ne by auto
    next
      fix i2
      assume a: "k1 = key" "j1 = N"
        and b: "k2 \<noteq> key" "m k2 = Some i2" "c < start i2" "start j2 = start i2 + d" "stop j2 = stop i2 + d" "c + n \<le> start j2" "fst k2 \<noteq> fst key \<longrightarrow> c + n < start j2" "stop j2 \<le> len'"
      show ?thesis using a b N r1 r2 ne by auto
    next
      fix i1
      assume a: "k1 \<noteq> key" "m k1 = Some i1" "j1 = i1" "start i1 \<le> c" "stop i1 \<le> c" "fst k1 \<noteq> fst key \<longrightarrow> stop i1 < c"
        and b: "k2 = key" "j2 = N"
      show ?thesis using a b N r1 r2 ne by auto
    next
      fix i1 i2
      assume a: "k1 \<noteq> key" "m k1 = Some i1" "j1 = i1" "start i1 \<le> c" "stop i1 \<le> c" "fst k1 \<noteq> fst key \<longrightarrow> stop i1 < c"
        and b: "k2 \<noteq> key" "m k2 = Some i2" "j2 = i2" "start i2 \<le> c" "stop i2 \<le> c" "fst k2 \<noteq> fst key \<longrightarrow> stop i2 < c"
      show ?thesis using a b N r1 r2 P [OF a(2) b(2) ne] by auto
    next
      fix i1 i2
      assume a: "k1 \<noteq> key" "m k1 = Some i1" "j1 = i1" "start i1 \<le> c" "stop i1 \<le> c" "fst k1 \<noteq> fst key \<longrightarrow> stop i1 < c"
        and b: "k2 \<noteq> key" "m k2 = Some i2" "c < start i2" "start j2 = start i2 + d" "stop j2 = stop i2 + d" "c + n \<le> start j2" "fst k2 \<noteq> fst key \<longrightarrow> c + n < start j2" "stop j2 \<le> len'"
      show ?thesis using a b N r1 r2 P [OF a(2) b(2) ne] by auto
    next
      fix i1
      assume a: "k1 \<noteq> key" "m k1 = Some i1" "c < start i1" "start j1 = start i1 + d" "stop j1 = stop i1 + d" "c + n \<le> start j1" "fst k1 \<noteq> fst key \<longrightarrow> c + n < start j1" "stop j1 \<le> len'"
        and b: "k2 = key" "j2 = N"
      show ?thesis using a b N r1 r2 ne by auto
    next
      fix i1 i2
      assume a: "k1 \<noteq> key" "m k1 = Some i1" "c < start i1" "start j1 = start i1 + d" "stop j1 = stop i1 + d" "c + n \<le> start j1" "fst k1 \<noteq> fst key \<longrightarrow> c + n < start j1" "stop j1 \<le> len'"
        and b: "k2 \<noteq> key" "m k2 = Some i2" "j2 = i2" "start i2 \<le> c" "stop i2 \<le> c" "fst k2 \<noteq> fst key \<longrightarrow> stop i2 < c"
      show ?thesis using a b N r1 r2 P [OF a(2) b(2) ne] by auto
    next
      fix i1 i2
      assume a: "k1 \<noteq> key" "m k1 = Some i1" "c < start i1" "start j1 = start i1 + d" "stop j1 = stop i1 + d" "c + n \<le> start j1" "fst k1 \<noteq> fst key \<longrightarrow> c + n < start j1" "stop j1 \<le> len'"
        and b: "k2 \<noteq> key" "m k2 = Some i2" "c < start i2" "start j2 = start i2 + d" "stop j2 = stop i2 + d" "c + n \<le> start j2" "fst k2 \<noteq> fst key \<longrightarrow> c + n < start j2" "stop j2 \<le> len'"
      show ?thesis using a b N r1 r2 P [OF a(2) b(2) ne] by auto
    qed
  qed
  show ?thesis
    unfolding wf_map_def using one two by blast
qed


lemma get_block_names_from_set:
  "set (get_block_names_from blocks cs) = set blocks \<union> (fst \<circ> fst) ` set cs"
  by (induction blocks cs rule: get_block_names_from.induct) (auto simp: Let_def)

lemma get_block_names_iff:
  assumes "distinct (map fst (categories self))"
  shows "block \<in> set (get_block_names self) \<longleftrightarrow>
           (\<exists>k i. map_of (categories self) k = Some i \<and> fst k = block)"
proof -
  have "block \<in> set (get_block_names self) \<longleftrightarrow> (\<exists>k i. (k, i) \<in> set (categories self) \<and> fst k = block)"
    by (force simp: get_block_names_def get_block_names_from_set)
  then show ?thesis
    using assms by (simp add: map_of_eq_Some_iff)
qed

lemma foldl_block_stop:
  fixes cs :: "((string \<times> string) \<times> category_info) list" and block :: string
  defines "F \<equiv> foldl (\<lambda>last_stop (category_tuple, info).
              if block = fst category_tuple
              then (if last_stop < stop info then stop info else last_stop)
              else last_stop)"
  shows "acc \<le> F acc cs \<and>
         (\<forall>(k, i) \<in> set cs. fst k = block \<longrightarrow> stop i \<le> F acc cs) \<and>
         (F acc cs = acc \<or> (\<exists>(k, i) \<in> set cs. fst k = block \<and> stop i = F acc cs))"
proof (induction cs arbitrary: acc)
  case Nil
  then show ?case by (simp add: F_def)
next
  case (Cons x cs)
  obtain k i where x: "x = (k, i)" by (cases x)
  let ?acc = "if block = fst k then (if acc < stop i then stop i else acc) else acc"
  have step: "F acc (x # cs) = F ?acc cs"
    by (simp add: F_def x)
  from Cons.IH [of ?acc] show ?case
    unfolding step by (auto simp: x split: if_splits)
qed

lemma last_stop_in_block_props:
  assumes d: "distinct (map fst (categories self))"
    and pos: "\<forall>k i. map_of (categories self) k = Some i \<longrightarrow> 0 < stop i"
    and blk: "block \<in> set (get_block_names self)"
  shows "\<forall>k i. map_of (categories self) k = Some i \<and> fst k = block \<longrightarrow>
           stop i \<le> last_stop_in_block self block"
    and "\<exists>k i. map_of (categories self) k = Some i \<and> fst k = block \<and>
           stop i = last_stop_in_block self block"
proof -
  note f = foldl_block_stop [of 0 block "categories self", folded last_stop_in_block_def]
  have le: "stop i \<le> last_stop_in_block self block"
    if "map_of (categories self) k = Some i" "fst k = block" for k i
    using f that map_of_SomeD [OF that(1)] by auto
  then show "\<forall>k i. map_of (categories self) k = Some i \<and> fst k = block \<longrightarrow>
           stop i \<le> last_stop_in_block self block"
    by blast
  obtain k0 i0 where k0: "map_of (categories self) k0 = Some i0" "fst k0 = block"
    using blk get_block_names_iff [OF d] by blast
  have "0 < stop i0"
    using pos k0(1) by blast
  then have "0 < last_stop_in_block self block"
    using le [OF k0] by linarith
  then obtain k i where "(k, i) \<in> set (categories self)" "fst k = block"
      "stop i = last_stop_in_block self block"
    using f by auto
  then have "map_of (categories self) k = Some i \<and> fst k = block \<and>
           stop i = last_stop_in_block self block"
    using d by (simp add: map_of_eq_Some_iff)
  then show "\<exists>k i. map_of (categories self) k = Some i \<and> fst k = block \<and>
           stop i = last_stop_in_block self block"
    by blast
qed

lemma foldl_all_stop_le:
  fixes cs :: "((string \<times> string) \<times> category_info) list"
  shows "acc \<le> B \<Longrightarrow> (\<forall>(k, i) \<in> set cs. stop i \<le> B) \<Longrightarrow>
     foldl (\<lambda>last_stop (category_tuple, info).
              if last_stop < stop info then stop info else last_stop) acc cs \<le> B"
  by (induction cs arbitrary: acc) auto

lemma map_of_set_category_entries:
  "map_of (shift_after c d (AList.update key N cs)) k =
     (if k = key then Some (shifted c d N) else map_option (shifted c d) (map_of cs k))"
proof -
  have "shifted c d = (\<lambda>info. if start info > c
                          then info\<lparr>start := start info + d, stop := stop info + d\<rparr> else info)"
    by (auto simp: shifted_def fun_eq_iff)
  then show ?thesis
    by (simp add: map_of_shift_after update_conv)
qed

lemma distinct_shift_after:
  "distinct (map fst (shift_after c d cs)) = distinct (map fst cs)"
proof -
  have "map fst (shift_after c d cs) = map fst cs"
    by (induction cs) (auto simp: shift_after_def)
  then show ?thesis by simp
qed


lemma shifted_same: "start N = c \<Longrightarrow> shifted c d N = N"
  by (simp add: shifted_def)

text \<open>
  \<open>set_category\<close> keeps the index well formed: with \<open>read_index_wf\<close>, the index fits
  the lines after a \<open>read\<close> and any number of calls of \<open>set_category\<close>.
\<close>

lemma set_category_index_wf:
  assumes wf: "index_wf self"
    and res: "set_category quote_fn self category category_dict block_arg quote = Inr self'"
  shows "index_wf self'"
proof -
  obtain block where blk: "default_block self block_arg = Inr block"
    using res by (auto simp: set_category_def split: sum.splits)
  obtain rendered is_looped where
    ren: "render_category quote_fn category category_dict quote = Inr (rendered, is_looped)"
    using res blk by (auto simp: set_category_def split: sum.splits)
  let ?new = "rendered @ [''#'']"
  let ?n = "int (length ?new)"
  let ?len = "int (length (lines self))"
  let ?m = "map_of (categories self)"
  let ?key = "(block, category)"
  have n: "0 < ?n" by simp
  have d: "distinct (map fst (categories self))" and wfm: "wf_map ?len ?m"
    using wf by (simp_all add: index_wf_def)
  have R: "0 \<le> start i \<and> start i < stop i \<and> stop i \<le> ?len" if "?m k = Some i" for k i
    using wfm that unfolding wf_map_def by blast
  have P: "(stop i1 \<le> start i2 \<or> stop i2 \<le> start i1) \<and> (fst k1 \<noteq> fst k2 \<longrightarrow> stop i1 \<noteq> start i2)"
    if "?m k1 = Some i1" "?m k2 = Some i2" "k1 \<noteq> k2" for k1 i1 k2 i2
    using wfm that unfolding wf_map_def by blast
  show ?thesis
  proof (cases "?m ?key")
    case (Some ci)
    let ?s = "start ci" and ?t = "stop ci"
    let ?N = "ci\<lparr>start := ?s, stop := ?s + ?n, multiline := False, loop := is_looped\<rparr>"
    let ?d = "?n - (?t - ?s)"
    note rc = R [OF Some]
    have self': "self' = \<lparr>lines = py_insert (py_del_slice (lines self) ?s ?t) ?s ?new,
        categories = shift_after ?s ?d (AList.update ?key ?N (categories self))\<rparr>"
      using res blk ren Some by (simp add: set_category_def Let_def)
    have len': "int (length (lines self')) = ?len + ?d"
      using rc length_py_del_slice [of ?s ?t "lines self"]
      by (simp add: self' length_py_insert)
    have m': "map_of (categories self') k =
        (if k = ?key then Some ?N else map_option (shifted ?s ?d) (?m k))" for k
      by (simp add: self' map_of_set_category_entries shifted_same)
    have left: "stop i \<le> ?s \<and> (fst k \<noteq> fst ?key \<longrightarrow> stop i < ?s)"
      if "?m k = Some i" "k \<noteq> ?key" "start i \<le> ?s" for k i
      using P [OF that(1) Some that(2)] R [OF that(1)] rc that(3) by auto
    have right: "?s + ?n \<le> start i + ?d \<and> (fst k \<noteq> fst ?key \<longrightarrow> ?s + ?n < start i + ?d) \<and>
        stop i + ?d \<le> ?len + ?d"
      if "?m k = Some i" "k \<noteq> ?key" "start i > ?s" for k i
      using P [OF that(1) Some that(2)] P [OF Some that(1)] R [OF that(1)] rc that(2,3) by auto
    have "wf_map (?len + ?d) (map_of (categories self'))"
      by (rule wf_edit [OF wfm m' _ _ n _ _ left right]) (use rc in simp_all)
    moreover have "distinct (map fst (categories self'))"
      using d by (simp add: self' distinct_shift_after distinct_update)
    ultimately show ?thesis
      by (simp add: index_wf_def len')
  next
    case None
    show ?thesis
    proof (cases "block \<in> set (get_block_names self)")
      case True
      let ?p = "last_stop_in_block self block"
      let ?N = "\<lparr>start = ?p, stop = ?p + ?n, loop = is_looped, multiline = False\<rparr>"
      have pos: "\<forall>k i. ?m k = Some i \<longrightarrow> 0 < stop i"
        using R by force
      note props = last_stop_in_block_props [OF d pos True]
      obtain kc ic where c: "?m kc = Some ic" "fst kc = block" "stop ic = ?p"
        using props(2) by blast
      note rc = R [OF c(1)]
      have self': "self' = \<lparr>lines = py_insert (lines self) ?p ?new,
          categories = shift_after ?p ?n (AList.update ?key ?N (categories self))\<rparr>"
        using res blk ren None True by (simp add: set_category_def Let_def add_category_def)
      have len': "int (length (lines self')) = ?len + ?n"
        by (simp add: self' length_py_insert)
      have m': "map_of (categories self') k =
          (if k = ?key then Some ?N else map_option (shifted ?p ?n) (?m k))" for k
        by (simp add: self' map_of_set_category_entries shifted_same)
      have left: "stop i \<le> ?p \<and> (fst k \<noteq> fst ?key \<longrightarrow> stop i < ?p)"
        if "?m k = Some i" "k \<noteq> ?key" "start i \<le> ?p" for k i
      proof (cases "k = kc")
        case True
        then show ?thesis using that c by simp
      next
        case False
        show ?thesis
        proof (cases "fst k = block")
          case True
          then have "stop i \<le> ?p"
            using props(1) that(1) by blast
          then show ?thesis
            using True by simp
        next
          case nb: False
          from P [OF that(1) c(1) False] P [OF c(1) that(1)] False nb c(2,3) rc R [OF that(1)] that(3)
          show ?thesis by auto
        qed
      qed
      have right: "?p + ?n \<le> start i + ?n \<and> (fst k \<noteq> fst ?key \<longrightarrow> ?p + ?n < start i + ?n) \<and>
          stop i + ?n \<le> ?len + ?n"
        if "?m k = Some i" "k \<noteq> ?key" "start i > ?p" for k i
        using R [OF that(1)] that(3) by auto
      have "wf_map (?len + ?n) (map_of (categories self'))"
        by (rule wf_edit [OF wfm m' _ _ n _ _ left right]) (use rc c in simp_all)
      moreover have "distinct (map fst (categories self'))"
        using d by (simp add: self' distinct_shift_after distinct_update)
      ultimately show ?thesis
        by (simp add: index_wf_def len')
    next
      case False
      let ?L = "last_stop_all self"
      let ?N = "\<lparr>start = ?L + 2, stop = ?L + (?n + 2), loop = is_looped, multiline = False\<rparr>"
      have L0: "0 \<le> ?L"
        using foldl_max_stop_ge [of 0 "categories self"] by (simp add: last_stop_all_def)
      have Llen: "?L \<le> ?len"
        unfolding last_stop_all_def
      proof (rule foldl_all_stop_le)
        show "0 \<le> ?len" by simp
        show "\<forall>(k, i) \<in> set (categories self). stop i \<le> ?len"
          using R d by (auto simp: map_of_eq_Some_iff)
      qed
      have self': "self' = \<lparr>lines = py_insert (lines self) ?L ([''data_'' @ block, ''#''] @ ?new),
          categories = shift_after (?L + 2) ?n (AList.update ?key ?N (categories self))\<rparr>"
        using res blk ren None False by (simp add: set_category_def Let_def add_category_def)
      have len': "int (length (lines self')) = ?len + ?n + 2"
        by (simp add: self' length_py_insert)
      have m': "map_of (categories self') k =
          (if k = ?key then Some ?N else map_option (shifted (?L + 2) ?n) (?m k))" for k
        by (simp add: self' map_of_set_category_entries shifted_same)
      have left: "stop i \<le> ?L + 2 \<and> (fst k \<noteq> fst ?key \<longrightarrow> stop i < ?L + 2)"
        if "?m k = Some i" "k \<noteq> ?key" "start i \<le> ?L + 2" for k i
        using last_stop_all_ge [OF that(1)] by simp
      have right: "?L + 2 + ?n \<le> start i + ?n \<and>
          (fst k \<noteq> fst ?key \<longrightarrow> ?L + 2 + ?n < start i + ?n) \<and> stop i + ?n \<le> ?len + ?n + 2"
        if "?m k = Some i" "k \<noteq> ?key" "start i > ?L + 2" for k i
        using last_stop_all_ge [OF that(1)] R [OF that(1)] that(3) by simp
      have "wf_map (?len + ?n + 2) (map_of (categories self'))"
        by (rule wf_edit [OF wfm m' _ _ n _ _ left right]) (use L0 Llen in simp_all)
      moreover have "distinct (map fst (categories self'))"
        using d by (simp add: self' distinct_shift_after distinct_update)
      ultimately show ?thesis
        by (simp add: index_wf_def len')
    qed
  qed
qed

text \<open>
  In a well formed index no other category starts at the place of the edit: each one
  starts before it or after it.
\<close>

lemma edit_point_not_start:
  assumes wf: "index_wf self"
    and other: "map_of (categories self) key = Some info" "key \<noteq> (block, category)"
  shows "start info \<noteq> edit_point self block category"
proof -
  let ?m = "map_of (categories self)"
  have d: "distinct (map fst (categories self))"
    and wfm: "wf_map (int (length (lines self))) ?m"
    using wf by (simp_all add: index_wf_def)
  have R: "0 \<le> start i \<and> start i < stop i" if "?m k = Some i" for k i
    using wfm that unfolding wf_map_def by blast
  have P: "(stop i1 \<le> start i2 \<or> stop i2 \<le> start i1) \<and> (fst k1 \<noteq> fst k2 \<longrightarrow> stop i1 \<noteq> start i2)"
    if "?m k1 = Some i1" "?m k2 = Some i2" "k1 \<noteq> k2" for k1 i1 k2 i2
    using wfm that unfolding wf_map_def by blast
  show ?thesis
  proof (cases "?m (block, category)")
    case (Some ci)
    from P [OF other(1) Some other(2)] R [OF other(1)] R [OF Some]
    show ?thesis by (auto simp: edit_point_def Some)
  next
    case None
    show ?thesis
    proof (cases "block \<in> set (get_block_names self)")
      case True
      have pos: "\<forall>k i. ?m k = Some i \<longrightarrow> 0 < stop i"
        using R by force
      note props = last_stop_in_block_props [OF d pos True]
      obtain kc ic where c: "?m kc = Some ic" "fst kc = block"
          "stop ic = last_stop_in_block self block"
        using props(2) by blast
      have ep: "edit_point self block category = stop ic"
        by (simp add: edit_point_def None True c(3))
      show ?thesis
      proof (cases "key = kc")
        case True
        then show ?thesis using R [OF c(1)] other(1) c(1) by (simp add: ep)
      next
        case False
        show ?thesis
        proof (cases "fst key = block")
          case True
          then have "stop info \<le> last_stop_in_block self block"
            using props(1) other(1) by blast
          then have "stop info \<le> stop ic"
            using c(3) by simp
          then show ?thesis using R [OF other(1)] by (simp add: ep)
        next
          case nb: False
          from P [OF c(1) other(1)] False nb c(2) show ?thesis
            by (auto simp: ep)
        qed
      qed
    next
      case False
      from last_stop_all_ge [OF other(1)] R [OF other(1)] show ?thesis
        by (simp add: edit_point_def None False)
    qed
  qed
qed

subsection \<open>Copying\<close>

text \<open>
  C10. For every file, \<open>copy\<close> raises \<open>NameError\<close>: the module never imports the name
  \<open>copy\<close> that the method reads. No copy of the file is returned, and the lines and the
  index of the file are the same after the call.
\<close>

theorem copy_raises_name_error:
  "copy self = (Inl NameError, self)"
  by (simp add: copy_def module_names_def)

end
